theory Spec2Isabelle
  imports Complex_Main "HOL-Library.Multiset"
begin

section \<open>Data model\<close>

text \<open>
  The loader (\<^verbatim>\<open>data/tiingo_loader.py\<close>) builds pandas frames from a JSON price feed and
  a CSV volatility feed and mirrors them in a directory of CSV artifacts.

  A field of a frame, of a JSON record or of a CSV line is a \<open>cell\<close>: a missing value
  (JSON \<^verbatim>\<open>null\<close>, an absent key, an empty CSV field: pandas' NaN), an integer, a float or
  text that is not a number. A 64-bit float is modelled by the rational it denotes;
  rounding, infinities and the 64-bit range of integers are not modelled.
\<close>

datatype cell = NaN | IntV int | FloatV rat | TextV string

datatype dtype = Float64 | Int64 | Object

text \<open>
  A trading date is a day number. A raw timestamp of the price feed carries the
  wall-clock day and its UTC offset, if it has one. The loader asks for daily bars,
  which the provider stamps at midnight, so the time of day is not kept. A record
  without a date, or with a date that pandas cannot parse, is outside the model.
\<close>

datatype stamp = Stamp (wall_day: int) (tzinfo: "string option")

text \<open>
  One record of the price feed: a JSON object as \<^verbatim>\<open>response.json()\<close> decodes it, with its
  date and its other members in their order, no key twice. A key may be absent from a
  record, or from all of them.
\<close>

record tiingo_record =
  date_member :: stamp
  members :: "(string \<times> cell) list"

text \<open>
  One row of a price frame: the date of the index, the three value columns the loader
  keeps, and whatever other columns the frame has.
\<close>

record bar =
  date :: int
  adjOpen :: cell
  adjClose :: cell
  adjVolume :: cell
  others :: "(string \<times> cell) list"

text \<open>
  A price frame after type enforcement: its rows in order and the dtype of each value
  column. (The dtypes pandas infers when a frame is built are overwritten by the
  \<^verbatim>\<open>astype\<close> calls before anything reads them, so rows carry a dtype only from there on.)
\<close>

record frame =
  rows :: "bar list"
  adjOpen_dtype :: dtype
  adjClose_dtype :: dtype
  adjVolume_dtype :: dtype

record vix_frame =
  vix_rows :: "(int \<times> cell) list"
  vix_close_dtype :: dtype

text \<open>\<^verbatim>\<open>config.DataConfig\<close>.\<close>

record DataConfig =
  tiingo_api_key :: string
  tiingo_base_url :: string
  equity_tickers :: "string list"
  cash_ticker :: string
  cash_proxy_ticker :: string
  cash_proxy_cutover :: string
  vix_ticker :: string
  start_date :: string
  end_date :: string
  backtest_start_date :: string
  french_rf_url :: string
  cache_dir :: string
  use_cache :: bool

section \<open>Errors\<close>

text \<open>
  Every \<^verbatim>\<open>raise\<close> of the loader and every exception of \<^verbatim>\<open>requests\<close> and pandas that can
  pass through it is a value. The f-string messages are kept as structured values.
\<close>

datatype message =
    ApiKeyEmpty
  | HttpAfterAttempts nat nat string
  | ConnectionFailedAfter nat string
  | RequestFailedAfter nat string
  | TickerNotFound string
  | EmptyResponse string
  | CannotConvert string
  | MissingColumn string
  | MixedTimezones

datatype error =
    ValueError message
  | ConnectionError message "string option"
  | HTTPError nat
  | RequestException string
  | JSONDecodeError
  | KeyError string
  | IndexError
  | EmptyDataError
  | IntCastingNaNError

section \<open>The outside world\<close>

text \<open>
  The body of an HTTP response, already lexed: a JSON array of daily records, a CSV
  feed with the header \<^verbatim>\<open>DATE,VIXCLS\<close> and its lines, a body that is neither (it parses
  neither as JSON nor as a CSV with a \<^verbatim>\<open>DATE\<close> column), or a body of no bytes. JSON values
  other than an array of records are not modelled.
\<close>

datatype body = Records "tiingo_record list" | Feed "(int \<times> cell) list" | Unparsable | EmptyBody

text \<open>
  What one \<^verbatim>\<open>requests.get\<close> comes back with: a response with its status code, a
  \<^verbatim>\<open>requests.exceptions.ConnectionError\<close>, or another exception of \<^verbatim>\<open>requests\<close>
  (a read timeout, too many redirects).
\<close>

datatype outcome = Response nat body | ConnectionFailure string | OtherFailure string

record request =
  url :: string
  params :: "(string \<times> string) list"
  headers :: "(string \<times> string) list"

text \<open>The network: what the \<open>n\<close>-th request of the run receives.\<close>

type_synonym net = "request \<Rightarrow> nat \<Rightarrow> outcome"

text \<open>
  A file of the cache directory, lexed: a file that has been opened for writing and
  holds nothing yet, a price artifact (header \<^verbatim>\<open>date,adjOpen,adjClose,adjVolume\<close> and any
  further columns), or a volatility artifact (header \<^verbatim>\<open>date,vix_close\<close>).
\<close>

datatype csv_file = Truncated | PriceCsv "bar list" | VixCsv "(int \<times> cell) list"

text \<open>
  The state the loader acts on: the files, the directories, the requests sent, the
  seconds slept, the warnings logged, and every state of the files the run has gone
  through. It also carries what the platform's sort does with the rows of one date
  (see \<open>sort_index\<close>): given the dates of a frame, the rank of each position.
\<close>

record world =
  files :: "string \<rightharpoonup> csv_file"
  dirs :: "string set"
  requests :: "request list"
  slept :: "nat list"
  warnings :: "string list"
  fs_history :: "(string \<rightharpoonup> csv_file) list"
  tie_rank :: "int list \<Rightarrow> nat \<Rightarrow> nat"

definition requests_get :: "net \<Rightarrow> request \<Rightarrow> world \<Rightarrow> outcome \<times> world" where
  "requests_get net req w = (net req (length (requests w)), w\<lparr>requests := requests w @ [req]\<rparr>)"

definition time_sleep :: "nat \<Rightarrow> world \<Rightarrow> world" where
  "time_sleep seconds w = w\<lparr>slept := slept w @ [seconds]\<rparr>"

definition logger_warning :: "string \<Rightarrow> world \<Rightarrow> world" where
  "logger_warning msg w = w\<lparr>warnings := warnings w @ [msg]\<rparr>"

section \<open>The retrying request of \<^verbatim>\<open>fetch_ticker_from_tiingo\<close>\<close>

definition MAX_RETRIES :: nat where
  "MAX_RETRIES = 3"

definition BACKOFF_SECONDS :: "nat list" where
  "BACKOFF_SECONDS = [1, 2, 4]"

text \<open>
  The \<^verbatim>\<open>for attempt in range(_MAX_RETRIES + 1)\<close> loop, as a recursion over the attempts
  still to come; the empty list is the loop's \<^verbatim>\<open>else\<close> branch. \<^verbatim>\<open>raise_for_status\<close> raises
  for a status from 400 to 599.
\<close>

fun request_loop ::
  "net \<Rightarrow> request \<Rightarrow> string \<Rightarrow> nat list \<Rightarrow> string option \<Rightarrow> world \<Rightarrow> (error + body) \<times> world" where
  "request_loop net req ticker [] last_exception w =
     (Inl (ConnectionError (RequestFailedAfter (MAX_RETRIES + 1) ticker) last_exception), w)"
| "request_loop net req ticker (attempt # rest) last_exception w =
     (case requests_get net req w of
        (Response status_code content, w1) \<Rightarrow>
          if status_code = 429 \<or> status_code \<ge> 500 then
            if attempt < MAX_RETRIES then
              if attempt < length BACKOFF_SECONDS then
                request_loop net req ticker rest last_exception
                  (time_sleep (BACKOFF_SECONDS ! attempt) w1)
              else (Inl IndexError, w1)
            else (Inl (ConnectionError (HttpAfterAttempts status_code (MAX_RETRIES + 1) ticker) None), w1)
          else if status_code = 404 then (Inl (ValueError (TickerNotFound ticker)), w1)
          else if 400 \<le> status_code \<and> status_code < 600 then (Inl (HTTPError status_code), w1)
          else (Inr content, w1)
      | (ConnectionFailure exc, w1) \<Rightarrow>
          if attempt < MAX_RETRIES then
            if attempt < length BACKOFF_SECONDS then
              request_loop net req ticker rest (Some exc)
                (time_sleep (BACKOFF_SECONDS ! attempt) w1)
            else (Inl IndexError, w1)
          else (Inl (ConnectionError (ConnectionFailedAfter (MAX_RETRIES + 1) ticker) (Some exc)), w1)
      | (OtherFailure exc, w1) \<Rightarrow> (Inl (RequestException exc), w1))"

section \<open>The pandas operations the loader calls\<close>

text \<open>
  \<^verbatim>\<open>astype("float64")\<close> turns every number into a float and keeps a missing value;
  \<^verbatim>\<open>astype("int64")\<close> truncates a float towards zero and raises on a missing value. Both
  raise on text that is not a number. The first cell that cannot be converted raises.
  An integer beyond 64 bits and a float beyond 53 bits of precision stay exact here,
  where numpy wraps the one and rounds the other; the properties below speak of a
  converted value only through these two functions.
\<close>

fun to_float64 :: "cell \<Rightarrow> error + cell" where
  "to_float64 NaN = Inr NaN"
| "to_float64 (IntV n) = Inr (FloatV (of_int n))"
| "to_float64 (FloatV q) = Inr (FloatV q)"
| "to_float64 (TextV s) = Inl (ValueError (CannotConvert s))"

fun to_int64 :: "cell \<Rightarrow> error + cell" where
  "to_int64 NaN = Inl IntCastingNaNError"
| "to_int64 (IntV n) = Inr (IntV n)"
| "to_int64 (FloatV q) = Inr (IntV (if 0 \<le> q then \<lfloor>q\<rfloor> else \<lceil>q\<rceil>))"
| "to_int64 (TextV s) = Inl (ValueError (CannotConvert s))"

fun astype :: "(cell \<Rightarrow> error + cell) \<Rightarrow> cell list \<Rightarrow> error + cell list" where
  "astype conv [] = Inr []"
| "astype conv (c # cs) =
     (case conv c of
        Inl e \<Rightarrow> Inl e
      | Inr c' \<Rightarrow> (case astype conv cs of Inl e \<Rightarrow> Inl e | Inr cs' \<Rightarrow> Inr (c' # cs')))"

definition isna_any :: "cell list \<Rightarrow> bool" where
  "isna_any cs = (NaN \<in> set cs)"

text \<open>\<^verbatim>\<open>df[name] = column\<close>: the column is written back row by row.\<close>

definition assign :: "(cell \<Rightarrow> 'r \<Rightarrow> 'r) \<Rightarrow> cell list \<Rightarrow> 'r list \<Rightarrow> 'r list" where
  "assign put cs df = map2 put cs df"

text \<open>
  \<^verbatim>\<open>sort_index()\<close> leaves a frame whose index is already ascending as it is. Any other
  frame it sorts with numpy's default quicksort, which is not stable: the rows come out
  in ascending order of their dates, and in which order the rows of one date come out
  is the platform's choice. \<open>rank\<close> is that choice: of the rows of one date the one of
  lower rank comes first, the earlier one where the ranks are equal.
\<close>

definition sort_index :: "(int list \<Rightarrow> nat \<Rightarrow> nat) \<Rightarrow> ('r \<Rightarrow> int) \<Rightarrow> 'r list \<Rightarrow> 'r list" where
  "sort_index rank key df =
     (if sorted (map key df) then df
      else sort_key key
             (map snd (sort_key (\<lambda>(i, r). rank (map key df) i) (enumerate 0 df))))"

text \<open>
  \<^verbatim>\<open>index.duplicated(keep="first")\<close>: the mask that is true at every date seen earlier in
  the index, and \<^verbatim>\<open>df[mask]\<close>, the rows at which a mask is true.
\<close>

fun duplicated :: "int list \<Rightarrow> int list \<Rightarrow> bool list" where
  "duplicated seen [] = []"
| "duplicated seen (d # ds) = (d \<in> set seen) # duplicated (d # seen) ds"

definition has_duplicates :: "int list \<Rightarrow> bool" where
  "has_duplicates ds = (\<not> distinct ds)"

definition select_mask :: "bool list \<Rightarrow> 'r list \<Rightarrow> 'r list" where
  "select_mask keep df = map snd (filter fst (zip keep df))"

text \<open>\<^verbatim>\<open>ffill\<close>: a missing value takes the last value seen that is not missing, if any.\<close>

fun ffill :: "cell \<Rightarrow> cell list \<Rightarrow> cell list" where
  "ffill last_valid [] = []"
| "ffill last_valid (c # cs) =
     (if c = NaN then last_valid # ffill last_valid cs else c # ffill c cs)"

definition dropna :: "(int \<times> cell) list \<Rightarrow> (int \<times> cell) list" where
  "dropna df = filter (\<lambda>(d, c). c \<noteq> NaN) df"

text \<open>
  \<^verbatim>\<open>.dt.tz_localize(None)\<close> on a lexed timestamp: the offset goes, the wall-clock day
  stays.
\<close>

definition tz_localize_None :: "stamp \<Rightarrow> int" where
  "tz_localize_None s = wall_day s"

section \<open>\<^verbatim>\<open>fetch_ticker_from_tiingo\<close>\<close>

text \<open>
  The type enforcement, lines 96 to 103 of the fetch and, word for word, lines 130 to
  135 of the cache read: both prices to float64, the volume to float64 if any volume of
  the column is missing and to int64 otherwise.
\<close>

definition enforce_dtypes :: "bar list \<Rightarrow> error + frame" where
  "enforce_dtypes df =
     (case astype to_float64 (map adjOpen df) of
        Inl e \<Rightarrow> Inl e
      | Inr opens \<Rightarrow>
     (let df1 = assign (\<lambda>c r. r\<lparr>adjOpen := c\<rparr>) opens df in
      case astype to_float64 (map adjClose df1) of
        Inl e \<Rightarrow> Inl e
      | Inr closes \<Rightarrow>
     (let df2 = assign (\<lambda>c r. r\<lparr>adjClose := c\<rparr>) closes df1 in
      if isna_any (map adjVolume df2) then
        (case astype to_float64 (map adjVolume df2) of
           Inl e \<Rightarrow> Inl e
         | Inr volumes \<Rightarrow>
             Inr \<lparr>rows = assign (\<lambda>c r. r\<lparr>adjVolume := c\<rparr>) volumes df2,
                  adjOpen_dtype = Float64, adjClose_dtype = Float64, adjVolume_dtype = Float64\<rparr>)
      else
        (case astype to_int64 (map adjVolume df2) of
           Inl e \<Rightarrow> Inl e
         | Inr volumes \<Rightarrow>
             Inr \<lparr>rows = assign (\<lambda>c r. r\<lparr>adjVolume := c\<rparr>) volumes df2,
                  adjOpen_dtype = Float64, adjClose_dtype = Float64, adjVolume_dtype = Int64\<rparr>))))"

text \<open>
  Lines 87 to 91: the frame of the records, its date column parsed, stripped of its
  offset and made the index. \<^verbatim>\<open>pd.to_datetime\<close> takes dates that are all without an offset
  or all of one offset; on any other column line 90 raises (the model has one kind of
  error for it).
\<close>

fun set_index_date :: "tiingo_record list \<Rightarrow> error + (int \<times> (string \<times> cell) list) list" where
  "set_index_date [] = Inr []"
| "set_index_date (r # rs) =
     (if \<forall>x\<in>set rs. tzinfo (date_member x) = tzinfo (date_member r) then
        Inr (map (\<lambda>x. (tz_localize_None (date_member x), members x)) (r # rs))
      else Inl (ValueError MixedTimezones))"

text \<open>
  A frame built from records has a column for every key that some record has; a record
  without the key, or with \<^verbatim>\<open>null\<close> for it, has a missing value there.
\<close>

definition has_column :: "(int \<times> (string \<times> cell) list) list \<Rightarrow> string \<Rightarrow> bool" where
  "has_column df name = (\<exists>(d, m)\<in>set df. name \<in> fst ` set m)"

definition cell_at :: "(string \<times> cell) list \<Rightarrow> string \<Rightarrow> cell" where
  "cell_at m name = (case map_of m name of None \<Rightarrow> NaN | Some c \<Rightarrow> c)"

text \<open>
  Line 94, \<^verbatim>\<open>df[["adjOpen", "adjClose", "adjVolume"]]\<close>: a \<^verbatim>\<open>KeyError\<close> if one of the three
  columns is not in the frame, the three columns and nothing else otherwise. (The fetch
  reaches this line with at least one record; of no row at all the model makes no row.)
\<close>

definition required_columns :: "(int \<times> (string \<times> cell) list) list \<Rightarrow> error + bar list" where
  "required_columns df =
     (case filter (\<lambda>name. \<not> has_column df name) [''adjOpen'', ''adjClose'', ''adjVolume''] of
        name # names \<Rightarrow> if df = [] then Inr [] else Inl (KeyError name)
      | [] \<Rightarrow>
          Inr (map (\<lambda>(d, m). \<lparr>date = d, adjOpen = cell_at m ''adjOpen'',
                              adjClose = cell_at m ''adjClose'',
                              adjVolume = cell_at m ''adjVolume'', others = []\<rparr>) df))"

text \<open>Lines 105 to 109: sort, then drop every row whose date came earlier, with a warning.\<close>

definition sort_and_validate :: "string \<Rightarrow> frame \<Rightarrow> world \<Rightarrow> frame \<times> world" where
  "sort_and_validate ticker df w =
     (let df1 = df\<lparr>rows := sort_index (tie_rank w) date (rows df)\<rparr> in
      if has_duplicates (map date (rows df1)) then
        (df1\<lparr>rows := select_mask (map Not (duplicated [] (map date (rows df1)))) (rows df1)\<rparr>,
         logger_warning (''Duplicate dates removed for '' @ ticker) w)
      else (df1, w))"

text \<open>Lines 87 to 111, everything the fetch does to the decoded records.\<close>

definition normalize :: "string \<Rightarrow> tiingo_record list \<Rightarrow> world \<Rightarrow> (error + frame) \<times> world" where
  "normalize ticker data w =
     (case set_index_date data of
        Inl e \<Rightarrow> (Inl e, w)
      | Inr df0 \<Rightarrow>
     (case required_columns df0 of
        Inl e \<Rightarrow> (Inl e, w)
      | Inr df1 \<Rightarrow>
     (case enforce_dtypes df1 of
        Inl e \<Rightarrow> (Inl e, w)
      | Inr df \<Rightarrow> (case sort_and_validate ticker df w of (df', w') \<Rightarrow> (Inr df', w')))))"

fun response_json :: "body \<Rightarrow> error + tiingo_record list" where
  "response_json (Records data) = Inr data"
| "response_json (Feed ls) = Inl JSONDecodeError"
| "response_json Unparsable = Inl JSONDecodeError"
| "response_json EmptyBody = Inl JSONDecodeError"

definition tiingo_request :: "string \<Rightarrow> string \<Rightarrow> string \<Rightarrow> string \<Rightarrow> string \<Rightarrow> request" where
  "tiingo_request ticker start_date' end_date' api_key base_url =
     \<lparr>url = base_url @ ''/'' @ ticker @ ''/prices'',
      params = [(''startDate'', start_date'), (''endDate'', end_date'), (''format'', ''json''),
                (''resampleFreq'', ''daily''), (''token'', api_key)],
      headers = [(''Content-Type'', ''application/json''),
                 (''Authorization'', ''Token '' @ api_key)]\<rparr>"

definition fetch_ticker_from_tiingo ::
  "net \<Rightarrow> string \<Rightarrow> string \<Rightarrow> string \<Rightarrow> string \<Rightarrow> string \<Rightarrow> world \<Rightarrow> (error + frame) \<times> world" where
  "fetch_ticker_from_tiingo net ticker start_date' end_date' api_key base_url w =
     (if api_key = [] then (Inl (ValueError ApiKeyEmpty), w)
      else
        case request_loop net (tiingo_request ticker start_date' end_date' api_key base_url) ticker
               [0..<MAX_RETRIES + 1] None w of
          (Inl e, w1) \<Rightarrow> (Inl e, w1)
        | (Inr content, w1) \<Rightarrow>
            (case response_json content of
               Inl e \<Rightarrow> (Inl e, w1)
             | Inr data \<Rightarrow>
                 if data = [] then (Inl (ValueError (EmptyResponse ticker)), w1)
                 else normalize ticker data w1))"

section \<open>The cache and \<^verbatim>\<open>load_ticker\<close>\<close>

definition upper_char :: "char \<Rightarrow> char" where
  "upper_char c =
     (let n = of_char c :: nat in if 97 \<le> n \<and> n \<le> 122 then char_of (n - 32) else c)"

definition upper :: "string \<Rightarrow> string" where
  "upper s = map upper_char s"

definition path_join :: "string \<Rightarrow> string \<Rightarrow> string" where
  "path_join directory name = directory @ ''/'' @ name"

definition path_exists :: "world \<Rightarrow> string \<Rightarrow> bool" where
  "path_exists w path = (files w path \<noteq> None)"

definition os_makedirs :: "string \<Rightarrow> world \<Rightarrow> world" where
  "os_makedirs directory w = w\<lparr>dirs := insert directory (dirs w)\<rparr>"

text \<open>
  \<^verbatim>\<open>to_csv(path)\<close> opens the file at \<open>path\<close> itself for writing, which creates or empties
  it, writes the lines and closes it. Both states of the files are recorded. A cell is
  read back as it was written: a float as a float, an integer as an integer, a missing
  value as an empty field, a date (\<^verbatim>\<open>date_format="%Y-%m-%d"\<close>) as its day.
\<close>

definition to_csv :: "string \<Rightarrow> csv_file \<Rightarrow> world \<Rightarrow> world" where
  "to_csv path content w =
     (let opened = (files w)(path \<mapsto> Truncated);
          closed = (files w)(path \<mapsto> content)
      in w\<lparr>files := closed, fs_history := fs_history w @ [opened, closed]\<rparr>)"

text \<open>
  \<^verbatim>\<open>pd.read_csv(path, parse_dates=["date"], index_col="date")\<close> and the first column lookup
  after it: an empty file raises in the parser, a file without the price columns at
  \<^verbatim>\<open>df["adjOpen"]\<close>.
\<close>

fun read_csv_prices :: "csv_file \<Rightarrow> error + bar list" where
  "read_csv_prices Truncated = Inl EmptyDataError"
| "read_csv_prices (PriceCsv rs) = Inr rs"
| "read_csv_prices (VixCsv ls) = Inl (KeyError ''adjOpen'')"

definition cache_path_of :: "DataConfig \<Rightarrow> string \<Rightarrow> string" where
  "cache_path_of config ticker = path_join (cache_dir config) (upper ticker @ ''.csv'')"

definition load_ticker :: "net \<Rightarrow> string \<Rightarrow> DataConfig \<Rightarrow> world \<Rightarrow> (error + frame) \<times> world" where
  "load_ticker net ticker config w =
     (let cache_path = cache_path_of config ticker in
      if use_cache config \<and> path_exists w cache_path then
        (case files w cache_path of
           None \<Rightarrow> (Inl EmptyDataError, w)
         | Some f \<Rightarrow>
             (case read_csv_prices f of
                Inl e \<Rightarrow> (Inl e, w)
              | Inr df \<Rightarrow> (enforce_dtypes df, w)))
      else
        case fetch_ticker_from_tiingo net ticker (start_date config) (end_date config)
               (tiingo_api_key config) (tiingo_base_url config) w of
          (Inl e, w1) \<Rightarrow> (Inl e, w1)
        | (Inr df, w1) \<Rightarrow>
            (Inr df, to_csv cache_path (PriceCsv (rows df)) (os_makedirs (cache_dir config) w1)))"

section \<open>\<^verbatim>\<open>fetch_vix\<close> and \<^verbatim>\<open>load_vix\<close>\<close>

definition vix_request :: "string \<Rightarrow> string \<Rightarrow> request" where
  "vix_request start_date' end_date' =
     \<lparr>url = ''https://fred.stlouisfed.org/graph/fredgraph.csv'' @
            ''?id=VIXCLS&cosd='' @ start_date' @ ''&coed='' @ end_date',
      params = [], headers = []\<rparr>"

text \<open>
  \<^verbatim>\<open>pd.read_csv(StringIO(response.text), na_values=["."], parse_dates=["DATE"])\<close>: the
  sentinel \<^verbatim>\<open>.\<close> is read as a missing value, like an empty field. A body without the
  \<^verbatim>\<open>DATE\<close> column raises, and so does a body of no bytes.
\<close>

fun read_csv_feed :: "body \<Rightarrow> error + (int \<times> cell) list" where
  "read_csv_feed (Feed ls) = Inr (map (\<lambda>(d, c). (d, if c = TextV ''.'' then NaN else c)) ls)"
| "read_csv_feed (Records data) = Inl (ValueError (MissingColumn ''DATE''))"
| "read_csv_feed Unparsable = Inl (ValueError (MissingColumn ''DATE''))"
| "read_csv_feed EmptyBody = Inl EmptyDataError"

definition fetch_vix :: "net \<Rightarrow> string \<Rightarrow> string \<Rightarrow> world \<Rightarrow> (error + vix_frame) \<times> world" where
  "fetch_vix net start_date' end_date' w =
     (case requests_get net (vix_request start_date' end_date') w of
        (ConnectionFailure exc, w1) \<Rightarrow> (Inl (RequestException exc), w1)
      | (OtherFailure exc, w1) \<Rightarrow> (Inl (RequestException exc), w1)
      | (Response status_code content, w1) \<Rightarrow>
          if 400 \<le> status_code \<and> status_code < 600 then (Inl (HTTPError status_code), w1)
          else
            (case read_csv_feed content of
               Inl e \<Rightarrow> (Inl e, w1)
             | Inr df \<Rightarrow>
                (let df1 = zip (map fst df) (ffill NaN (map snd df));
                     df2 = dropna df1
                 in case astype to_float64 (map snd df2) of
                      Inl e \<Rightarrow> (Inl e, w1)
                    | Inr closes \<Rightarrow>
                        (Inr \<lparr>vix_rows = sort_index (tie_rank w1) fst (zip (map fst df2) closes),
                              vix_close_dtype = Float64\<rparr>, w1))))"

fun read_csv_vix :: "csv_file \<Rightarrow> error + (int \<times> cell) list" where
  "read_csv_vix Truncated = Inl EmptyDataError"
| "read_csv_vix (VixCsv ls) = Inr ls"
| "read_csv_vix (PriceCsv rs) = Inl (KeyError ''vix_close'')"

definition vix_cache_path :: "DataConfig \<Rightarrow> string" where
  "vix_cache_path config = path_join (cache_dir config) ''VIX.csv''"

definition load_vix :: "net \<Rightarrow> DataConfig \<Rightarrow> world \<Rightarrow> (error + vix_frame) \<times> world" where
  "load_vix net config w =
     (let cache_path = vix_cache_path config in
      if use_cache config \<and> path_exists w cache_path then
        (case files w cache_path of
           None \<Rightarrow> (Inl EmptyDataError, w)
         | Some f \<Rightarrow>
             (case read_csv_vix f of
                Inl e \<Rightarrow> (Inl e, w)
              | Inr df \<Rightarrow>
                  (case astype to_float64 (map snd df) of
                     Inl e \<Rightarrow> (Inl e, w)
                   | Inr closes \<Rightarrow>
                       (Inr \<lparr>vix_rows = zip (map fst df) closes, vix_close_dtype = Float64\<rparr>, w))))
      else
        case fetch_vix net (start_date config) (end_date config) w of
          (Inl e, w1) \<Rightarrow> (Inl e, w1)
        | (Inr df, w1) \<Rightarrow>
            (Inr df, to_csv cache_path (VixCsv (vix_rows df)) (os_makedirs (cache_dir config) w1)))"

section \<open>Vocabulary of the properties\<close>

text \<open>
  The outcomes the retry policy names: HTTP 429, any HTTP 5xx, a connection failure.
  An outcome is settled when the loop ends on it: any other status below 500, or an
  exception of \<^verbatim>\<open>requests\<close> that is not a connection error.
\<close>

fun retryable :: "outcome \<Rightarrow> bool" where
  "retryable (Response status_code content) =
     (status_code = 429 \<or> (500 \<le> status_code \<and> status_code < 600))"
| "retryable (ConnectionFailure exc) = True"
| "retryable (OtherFailure exc) = False"

fun settled :: "outcome \<Rightarrow> bool" where
  "settled (Response status_code content) = (status_code \<noteq> 429 \<and> status_code < 500)"
| "settled (ConnectionFailure exc) = False"
| "settled (OtherFailure exc) = True"

text \<open>
  The failure after the last attempt: a \<^verbatim>\<open>ConnectionError\<close> that carries the four
  attempts and the last status or, as its cause, the last exception.
\<close>

fun unavailable :: "string \<Rightarrow> outcome \<Rightarrow> error" where
  "unavailable ticker (Response status_code content) =
     ConnectionError (HttpAfterAttempts status_code 4 ticker) None"
| "unavailable ticker (ConnectionFailure exc) =
     ConnectionError (ConnectionFailedAfter 4 ticker) (Some exc)"
| "unavailable ticker (OtherFailure exc) = RequestException exc"

text \<open>
  A row \<open>r'\<close> is the row \<open>r\<close> after type enforcement, the volume converted by \<open>vol\<close>;
  and a row \<open>r'\<close> of a fetched frame is the provider record \<open>r\<close>, normalised.
\<close>

definition coerced :: "(cell \<Rightarrow> error + cell) \<Rightarrow> bar \<Rightarrow> bar \<Rightarrow> bool" where
  "coerced vol r r' \<longleftrightarrow>
     date r' = date r \<and> others r' = others r \<and>
     to_float64 (adjOpen r) = Inr (adjOpen r') \<and>
     to_float64 (adjClose r) = Inr (adjClose r') \<and>
     vol (adjVolume r) = Inr (adjVolume r')"

definition kept :: "(cell \<Rightarrow> error + cell) \<Rightarrow> tiingo_record \<Rightarrow> bar \<Rightarrow> bool" where
  "kept vol r r' \<longleftrightarrow>
     date r' = wall_day (date_member r) \<and> others r' = [] \<and>
     to_float64 (cell_at (members r) ''adjOpen'') = Inr (adjOpen r') \<and>
     to_float64 (cell_at (members r) ''adjClose'') = Inr (adjClose r') \<and>
     vol (cell_at (members r) ''adjVolume'') = Inr (adjVolume r')"

text \<open>The volume column of the frame built from the records of a response.\<close>

definition volume_column :: "tiingo_record list \<Rightarrow> cell list" where
  "volume_column data = map (\<lambda>r. cell_at (members r) ''adjVolume'') data"

text \<open>The conversion the volume column gets: decided on the whole column.\<close>

definition volume_conversion :: "cell list \<Rightarrow> cell \<Rightarrow> error + cell" where
  "volume_conversion volumes = (if NaN \<in> set volumes then to_float64 else to_int64)"

text \<open>What a column of a dtype holds: floats and missing values, or integers.\<close>

fun holds :: "dtype \<Rightarrow> cell \<Rightarrow> bool" where
  "holds Float64 NaN = True"
| "holds Float64 (FloatV q) = True"
| "holds Float64 c = False"
| "holds Int64 (IntV n) = True"
| "holds Int64 c = False"
| "holds Object c = True"

fun numeric :: "cell \<Rightarrow> bool" where
  "numeric (TextV s) = False"
| "numeric c = True"

text \<open>A missing value, a float, or an integer of 64 bits.\<close>

fun plain_number :: "cell \<Rightarrow> bool" where
  "plain_number NaN = True"
| "plain_number (IntV n) = (- (2 ^ 63) \<le> n \<and> n < 2 ^ 63)"
| "plain_number (FloatV q) = True"
| "plain_number (TextV s) = False"

text \<open>A missing observation of the volatility feed: the sentinel, or an empty field.\<close>

definition missing :: "cell \<Rightarrow> bool" where
  "missing c \<longleftrightarrow> c = NaN \<or> c = TextV ''.''"

text \<open>The rows of an artifact, taken as provider records with timezone-naive dates.\<close>

definition as_records :: "bar list \<Rightarrow> tiingo_record list" where
  "as_records df =
     map (\<lambda>r. \<lparr>date_member = Stamp (date r) None,
               members = [(''adjOpen'', adjOpen r), (''adjClose'', adjClose r),
                          (''adjVolume'', adjVolume r)] @ others r\<rparr>) df"

section \<open>Sample inputs\<close>

text \<open>
  The default configuration with an empty key (the fixture \<^verbatim>\<open>offline_config\<close>), the same
  with a key, and a world in which nothing has happened, on a platform whose sort keeps
  the rows of one date in their order. Day 19724 is 2024-01-02.
\<close>

definition offline_config :: DataConfig where
  "offline_config =
     \<lparr>tiingo_api_key = [], tiingo_base_url = ''https://api.tiingo.com/tiingo/daily'',
      equity_tickers = [''SPY'', ''MGK''], cash_ticker = ''SGOV'', cash_proxy_ticker = ''SHV'',
      cash_proxy_cutover = ''2020-05-26'', vix_ticker = ''VIXY'', start_date = ''2007-06-01'',
      end_date = ''2025-12-31'', backtest_start_date = ''2008-01-02'',
      french_rf_url = ''https://mba.tuck.dartmouth.edu/pages/faculty/ken.french/ftp/F-F_Research_Data_Factors_daily_CSV.zip'',
      cache_dir = ''data/cache'', use_cache = True\<rparr>"

definition keyed_config :: DataConfig where
  "keyed_config = offline_config\<lparr>tiingo_api_key := ''TEST_KEY''\<rparr>"

definition empty_world :: world where
  "empty_world = \<lparr>files = Map.empty, dirs = {}, requests = [], slept = [], warnings = [],
                  fs_history = [], tie_rank = (\<lambda>dates i. i)\<rparr>"

definition two_bars :: "tiingo_record list" where
  "two_bars =
     [\<lparr>date_member = Stamp 19724 (Some ''UTC''),
       members = [(''close'', FloatV 101), (''adjOpen'', FloatV 100),
                  (''adjClose'', FloatV (201 / 2)), (''adjVolume'', IntV 1000000)]\<rparr>,
      \<lparr>date_member = Stamp 19725 (Some ''UTC''),
       members = [(''close'', FloatV 102), (''adjOpen'', FloatV 101),
                  (''adjClose'', FloatV (203 / 2)), (''adjVolume'', IntV 1100000)]\<rparr>]"

text \<open>A provider that is down, and one that answers 503 twice and then 200.\<close>

definition always_503 :: net where
  "always_503 req n = Response 503 Unparsable"

definition recovering :: net where
  "recovering req n = (if n < 2 then Response 503 Unparsable else Response 200 (Records two_bars))"

definition serving :: "tiingo_record list \<Rightarrow> net" where
  "serving data req n = Response 200 (Records data)"

definition mgk_fixture :: "bar list" where
  "mgk_fixture =
     [\<lparr>date = 19724, adjOpen = FloatV 470, adjClose = FloatV 471, adjVolume = IntV 50000000, others = []\<rparr>,
      \<lparr>date = 19725, adjOpen = FloatV 471, adjClose = FloatV 472, adjVolume = IntV 51000000, others = []\<rparr>,
      \<lparr>date = 19726, adjOpen = FloatV 472, adjClose = FloatV 473, adjVolume = IntV 52000000, others = []\<rparr>,
      \<lparr>date = 19727, adjOpen = FloatV 473, adjClose = FloatV 474, adjVolume = IntV 53000000, others = []\<rparr>,
      \<lparr>date = 19730, adjOpen = FloatV 474, adjClose = FloatV 475, adjVolume = IntV 54000000, others = []\<rparr>]"

definition fixture_world :: world where
  "fixture_world = empty_world\<lparr>files := [''data/cache/MGK.csv'' \<mapsto> PriceCsv mgk_fixture]\<rparr>"

definition fred :: "(int \<times> cell) list \<Rightarrow> net" where
  "fred ls req n = Response 200 (Feed ls)"

text \<open>Two records of one date, the second without a volume.\<close>

definition duplicate_bars :: "tiingo_record list" where
  "duplicate_bars =
     [\<lparr>date_member = Stamp 19724 (Some ''UTC''),
       members = [(''adjOpen'', FloatV 100), (''adjClose'', FloatV (201 / 2)),
                  (''adjVolume'', IntV 1000000)]\<rparr>,
      \<lparr>date_member = Stamp 19724 (Some ''UTC''),
       members = [(''adjOpen'', FloatV 100), (''adjClose'', FloatV (201 / 2)),
                  (''adjVolume'', NaN)]\<rparr>]"

text \<open>
  Eighteen records in descending order of their dates, from 2024-01-19 down, but for the
  eighth, which has the date of the first; the close of a record is its number. And a
  platform whose sort puts the later of two rows of one date first, as the scalar
  quicksort of numpy does with the first and the eighth of these.
\<close>

definition numbered :: "int \<Rightarrow> int \<Rightarrow> tiingo_record" where
  "numbered day k =
     \<lparr>date_member = Stamp day (Some ''UTC''),
      members = [(''adjOpen'', FloatV 100), (''adjClose'', FloatV (of_int k)),
                 (''adjVolume'', IntV 1000)]\<rparr>"

definition descending_response :: "tiingo_record list" where
  "descending_response =
     [numbered 19741 1, numbered 19740 2, numbered 19739 3, numbered 19738 4,
      numbered 19737 5, numbered 19736 6, numbered 19735 7, numbered 19741 8,
      numbered 19733 9, numbered 19732 10, numbered 19731 11, numbered 19730 12,
      numbered 19729 13, numbered 19728 14, numbered 19727 15, numbered 19726 16,
      numbered 19725 17, numbered 19724 18]"

text \<open>Three records in ascending order, the first two of one date.\<close>

definition repeated_bars :: "tiingo_record list" where
  "repeated_bars = [numbered 19724 1, numbered 19724 2, numbered 19725 3]"

definition later_first_world :: world where
  "later_first_world = empty_world\<lparr>tie_rank := (\<lambda>dates i. length dates - i)\<rparr>"

definition unsorted_rows :: "bar list" where
  "unsorted_rows =
     [\<lparr>date = 19725, adjOpen = FloatV 101, adjClose = FloatV (203 / 2),
       adjVolume = IntV 1100000, others = [(''close'', FloatV 102)]\<rparr>,
      \<lparr>date = 19724, adjOpen = FloatV 100, adjClose = FloatV (201 / 2),
       adjVolume = IntV 1000000, others = [(''close'', FloatV 101)]\<rparr>,
      \<lparr>date = 19725, adjOpen = FloatV 555, adjClose = FloatV 999,
       adjVolume = IntV 7, others = [(''close'', FloatV 999)]\<rparr>]"

definition unsorted_world :: world where
  "unsorted_world = empty_world\<lparr>files := [''data/cache/SPY.csv'' \<mapsto> PriceCsv unsorted_rows]\<rparr>"

definition vix_feed :: "(int \<times> cell) list" where
  "vix_feed = [(19723, TextV ''.''), (19724, FloatV 15), (19725, TextV ''.''), (19726, FloatV 16)]"

definition gappy_vix :: "(int \<times> cell) list" where
  "gappy_vix = [(19725, NaN), (19724, FloatV 15), (19724, IntV 16), (19726, NaN)]"

definition vix_world :: world where
  "vix_world = empty_world\<lparr>files := [''data/cache/VIX.csv'' \<mapsto> VixCsv gappy_vix]\<rparr>"

definition never_half_written :: "world \<Rightarrow> world \<Rightarrow> string \<Rightarrow> bool" where
  "never_half_written w w' path \<longleftrightarrow>
     (\<forall>fs\<in>set (drop (length (fs_history w)) (fs_history w')).
        fs path = files w path \<or> fs path = files w' path)"

section \<open>Evaluation\<close>

text \<open>The equations that run the loader on a concrete input.\<close>

lemmas loader_defs =
  fetch_ticker_from_tiingo_def tiingo_request_def normalize_def enforce_dtypes_def
  required_columns_def has_column_def cell_at_def sort_and_validate_def sort_index_def
  has_duplicates_def select_mask_def assign_def isna_any_def tz_localize_None_def
  requests_get_def time_sleep_def logger_warning_def MAX_RETRIES_def BACKOFF_SECONDS_def
  load_ticker_def cache_path_of_def path_join_def path_exists_def os_makedirs_def to_csv_def
  upper_def upper_char_def fetch_vix_def vix_request_def dropna_def load_vix_def
  vix_cache_path_def Let_def upt_conv_Cons

lemmas sample_defs =
  offline_config_def keyed_config_def empty_world_def two_bars_def always_503_def
  recovering_def serving_def mgk_fixture_def fixture_world_def fred_def
  duplicate_bars_def unsorted_rows_def unsorted_world_def vix_feed_def gappy_vix_def
  vix_world_def

section \<open>Properties of the retrying request\<close>

lemma attempts_range: "[0..<MAX_RETRIES + 1] = [0..<4]"
  by (simp add: MAX_RETRIES_def)

lemma request_loop_retry:
  assumes "retryable (net req (length (requests w)))" and "attempt < 3"
  shows "\<exists>le'. request_loop net req ticker (attempt # rest) le w =
           request_loop net req ticker rest le'
             (w\<lparr>requests := requests w @ [req], slept := slept w @ [BACKOFF_SECONDS ! attempt]\<rparr>)"
  using assms
  by (cases "net req (length (requests w))")
     (auto simp: requests_get_def time_sleep_def MAX_RETRIES_def BACKOFF_SECONDS_def)

lemma request_loop_last:
  assumes "retryable (net req (length (requests w)))"
  shows "request_loop net req ticker (3 # rest) le w =
           (Inl (unavailable ticker (net req (length (requests w)))),
            w\<lparr>requests := requests w @ [req]\<rparr>)"
  using assms
  by (cases "net req (length (requests w))")
     (auto simp: requests_get_def MAX_RETRIES_def)

lemma request_loop_settled:
  assumes "settled (net req (length (requests w)))"
  shows "\<exists>res. request_loop net req ticker (attempt # rest) le w =
           (res, w\<lparr>requests := requests w @ [req]\<rparr>)"
  using assms
  by (cases "net req (length (requests w))") (auto simp: requests_get_def)

lemma request_loop_prefix:
  assumes "a + k \<le> 3" and "\<forall>j<k. retryable (net req (length (requests w) + j))"
  shows "\<exists>le'. request_loop net req ticker [a..<4] le w =
           request_loop net req ticker [a + k..<4] le'
             (w\<lparr>requests := requests w @ replicate k req,
                slept := slept w @ take k (drop a BACKOFF_SECONDS)\<rparr>)"
  using assms
proof (induction k arbitrary: a w le)
  case 0
  then show ?case by (auto intro: exI [of _ le])
next
  case (Suc k)
  let ?w1 = "w\<lparr>requests := requests w @ [req], slept := slept w @ [BACKOFF_SECONDS ! a]\<rparr>"
  from Suc.prems have a: "a < 3" and r0: "retryable (net req (length (requests w)))" by auto
  have up: "[a..<4] = a # [Suc a..<4]" using a by (simp add: upt_conv_Cons)
  have "\<exists>l1. request_loop net req ticker (a # [Suc a..<4]) le w =
          request_loop net req ticker [Suc a..<4] l1 ?w1"
    by (rule request_loop_retry) (use r0 a in simp_all)
  then obtain l1 where s1: "request_loop net req ticker [a..<4] le w =
          request_loop net req ticker [Suc a..<4] l1 ?w1" unfolding up ..
  have "\<forall>j<k. retryable (net req (length (requests ?w1) + j))"
    using Suc.prems(2) by (auto dest: spec [of _ "Suc j" for j])
  moreover have "Suc a + k \<le> 3" using Suc.prems by simp
  ultimately obtain l2 where s2: "request_loop net req ticker [Suc a..<4] l1 ?w1 =
      request_loop net req ticker [Suc a + k..<4] l2
        (?w1\<lparr>requests := requests ?w1 @ replicate k req,
             slept := slept ?w1 @ take k (drop (Suc a) BACKOFF_SECONDS)\<rparr>)"
    using Suc.IH [of "Suc a" ?w1 l1] by blast
  have d: "BACKOFF_SECONDS ! a # take k (drop (Suc a) BACKOFF_SECONDS) =
           take (Suc k) (drop a BACKOFF_SECONDS)"
  proof -
    have "a < length BACKOFF_SECONDS" using a by (simp add: BACKOFF_SECONDS_def)
    then have "drop a BACKOFF_SECONDS = BACKOFF_SECONDS ! a # drop (Suc a) BACKOFF_SECONDS"
      by (simp add: Cons_nth_drop_Suc)
    then show ?thesis by simp
  qed
  show ?case
    unfolding s1 s2 by (rule exI [of _ l2]) (simp add: d)
qed

lemma sort_and_validate_world:
  "sort_and_validate ticker df w = (df', w') \<Longrightarrow>
     files w' = files w \<and> dirs w' = dirs w \<and> requests w' = requests w \<and> slept w' = slept w
     \<and> fs_history w' = fs_history w"
  by (auto simp: sort_and_validate_def Let_def logger_warning_def split: if_splits)

lemma normalize_world:
  "normalize ticker data w = (res, w') \<Longrightarrow>
     files w' = files w \<and> dirs w' = dirs w \<and> requests w' = requests w \<and> slept w' = slept w
     \<and> fs_history w' = fs_history w"
  by (auto simp: normalize_def split: sum.splits prod.splits dest: sort_and_validate_world)

lemma fetch_ticker_unfold:
  assumes "api_key \<noteq> []"
  shows "fetch_ticker_from_tiingo net ticker s e api_key base_url w =
     (case request_loop net (tiingo_request ticker s e api_key base_url) ticker [0..<4] None w of
        (Inl e, w1) \<Rightarrow> (Inl e, w1)
      | (Inr content, w1) \<Rightarrow>
          (case response_json content of
             Inl e \<Rightarrow> (Inl e, w1)
           | Inr data \<Rightarrow>
               if data = [] then (Inl (ValueError (EmptyResponse ticker)), w1)
               else normalize ticker data w1))"
  unfolding fetch_ticker_from_tiingo_def attempts_range using assms by (simp only: if_False)

lemma fetch_after_loop:
  assumes "api_key \<noteq> []"
    and "request_loop net (tiingo_request ticker s e api_key base_url) ticker [0..<4] None w = (res, w1)"
  shows "requests (snd (fetch_ticker_from_tiingo net ticker s e api_key base_url w)) = requests w1
       \<and> slept (snd (fetch_ticker_from_tiingo net ticker s e api_key base_url w)) = slept w1
       \<and> (\<forall>err. res = Inl err \<longrightarrow>
            fetch_ticker_from_tiingo net ticker s e api_key base_url w = (Inl err, w1))"
proof (cases res)
  case (Inl err)
  with assms show ?thesis unfolding fetch_ticker_unfold [OF assms(1)] by simp
next
  case (Inr content)
  show ?thesis
  proof (cases "response_json content")
    case (Inl err)
    with assms Inr show ?thesis unfolding fetch_ticker_unfold [OF assms(1)] by simp
  next
    case json: (Inr data)
    obtain r w' where n: "normalize ticker data w1 = (r, w')" by (cases "normalize ticker data w1")
    from normalize_world [OF n] assms Inr json n show ?thesis
      unfolding fetch_ticker_unfold [OF assms(1)] by simp
  qed
qed

text \<open>
  C2. A call of the price fetch whose four attempts all end in HTTP 429, an HTTP 5xx or a
  connection failure sends four requests, sleeps 1, 2 and 4 seconds between them and
  fails with the \<^verbatim>\<open>ConnectionError\<close> that carries the four attempts and the last status or
  exception. A call whose first \<open>k \<le> 3\<close> attempts end so and whose next attempt settles
  sends \<open>k + 1\<close> requests and sleeps the first \<open>k\<close> of 1, 2, 4 seconds.
\<close>

theorem fetch_retry_schedule:
  assumes "api_key \<noteq> []" and "req = tiingo_request ticker s e api_key base_url"
  shows "((\<forall>k<4. retryable (net req (length (requests w) + k))) \<longrightarrow>
            fetch_ticker_from_tiingo net ticker s e api_key base_url w =
              (Inl (unavailable ticker (net req (length (requests w) + 3))),
               w\<lparr>requests := requests w @ replicate 4 req, slept := slept w @ [1, 2, 4]\<rparr>))
       \<and> (\<forall>k\<le>3. (\<forall>j<k. retryable (net req (length (requests w) + j)))
                  \<and> settled (net req (length (requests w) + k)) \<longrightarrow>
            requests (snd (fetch_ticker_from_tiingo net ticker s e api_key base_url w)) =
              requests w @ replicate (Suc k) req
          \<and> slept (snd (fetch_ticker_from_tiingo net ticker s e api_key base_url w)) =
              slept w @ take k [1, 2, 4])"
proof (intro conjI impI allI)
  assume all: "\<forall>k<4. retryable (net req (length (requests w) + k))"
  let ?w3 = "w\<lparr>requests := requests w @ replicate 3 req,
                slept := slept w @ take 3 (drop 0 BACKOFF_SECONDS)\<rparr>"
  have "\<forall>j<3. retryable (net req (length (requests w) + j))" using all by simp
  then obtain le' where s1:
    "request_loop net req ticker [0..<4] None w = request_loop net req ticker [0 + 3..<4] le' ?w3"
    using request_loop_prefix [of 0 3 net req w ticker None] by auto
  have up: "[0 + 3..<4] = [3::nat]" by (simp add: upt_conv_Cons)
  have r3: "retryable (net req (length (requests ?w3)))" using all by simp
  note last = request_loop_last [where net=net and req=req and w="?w3" and ticker=ticker
      and rest="[]" and le=le', OF r3]
  have s2: "request_loop net req ticker [0..<4] None w =
      (Inl (unavailable ticker (net req (length (requests w) + 3))),
       w\<lparr>requests := requests w @ replicate 4 req, slept := slept w @ [1, 2, 4]\<rparr>)"
    unfolding s1 up last by (simp add: BACKOFF_SECONDS_def numeral_eq_Suc replicate_append_same)
  from fetch_after_loop [OF assms(1) s2 [unfolded assms(2)]]
  show "fetch_ticker_from_tiingo net ticker s e api_key base_url w =
          (Inl (unavailable ticker (net req (length (requests w) + 3))),
           w\<lparr>requests := requests w @ replicate 4 req, slept := slept w @ [1, 2, 4]\<rparr>)"
    unfolding assms(2) by simp
next
  fix k :: nat
  assume k: "k \<le> 3"
    and pre: "(\<forall>j<k. retryable (net req (length (requests w) + j)))
               \<and> settled (net req (length (requests w) + k))"
  let ?wk = "w\<lparr>requests := requests w @ replicate k req,
                slept := slept w @ take k (drop 0 BACKOFF_SECONDS)\<rparr>"
  obtain le' where s1:
    "request_loop net req ticker [0..<4] None w = request_loop net req ticker [0 + k..<4] le' ?wk"
    using request_loop_prefix [of 0 k net req w ticker None] k pre by auto
  have up: "[0 + k..<4] = k # [Suc k..<4]" using k by (simp add: upt_conv_Cons)
  have sk: "settled (net req (length (requests ?wk)))" using pre by simp
  note stop = request_loop_settled [where net=net and req=req and w="?wk" and ticker=ticker
      and attempt=k and rest="[Suc k..<4]" and le=le', OF sk]
  from stop obtain res where s2: "request_loop net req ticker [0..<4] None w =
      (res, ?wk\<lparr>requests := requests ?wk @ [req]\<rparr>)"
    unfolding s1 up by blast
  from fetch_after_loop [OF assms(1) s2 [unfolded assms(2)]]
  have "requests (snd (fetch_ticker_from_tiingo net ticker s e api_key base_url w)) =
          requests w @ replicate (Suc k) req
      \<and> slept (snd (fetch_ticker_from_tiingo net ticker s e api_key base_url w)) =
          slept w @ take k [1, 2, 4]"
    unfolding assms(2) by (simp add: BACKOFF_SECONDS_def replicate_append_same)
  then show "requests (snd (fetch_ticker_from_tiingo net ticker s e api_key base_url w)) =
          requests w @ replicate (Suc k) req"
    and "slept (snd (fetch_ticker_from_tiingo net ticker s e api_key base_url w)) =
          slept w @ take k [1, 2, 4]" by simp_all
qed

theorem fetch_retry_schedule_witness:
  "''TEST_KEY'' \<noteq> []
   \<and> retryable (always_503 (tiingo_request ''SPY'' ''2024-01-02'' ''2024-01-05'' ''TEST_KEY'' ''u'') 3)
   \<and> fetch_ticker_from_tiingo always_503 ''SPY'' ''2024-01-02'' ''2024-01-05'' ''TEST_KEY'' ''u''
       empty_world =
      (Inl (ConnectionError (HttpAfterAttempts 503 4 ''SPY'') None),
       empty_world\<lparr>requests :=
           replicate 4 (tiingo_request ''SPY'' ''2024-01-02'' ''2024-01-05'' ''TEST_KEY'' ''u''),
         slept := [1, 2, 4]\<rparr>)
   \<and> retryable (recovering (tiingo_request ''SPY'' ''2024-01-02'' ''2024-01-05'' ''TEST_KEY'' ''u'') 1)
   \<and> settled (recovering (tiingo_request ''SPY'' ''2024-01-02'' ''2024-01-05'' ''TEST_KEY'' ''u'') 2)
   \<and> slept (snd (fetch_ticker_from_tiingo recovering ''SPY'' ''2024-01-02'' ''2024-01-05''
        ''TEST_KEY'' ''u'' empty_world)) = [1, 2]
   \<and> length (requests (snd (fetch_ticker_from_tiingo recovering ''SPY'' ''2024-01-02''
        ''2024-01-05'' ''TEST_KEY'' ''u'' empty_world))) = 3"
proof -
  let ?req = "tiingo_request ''SPY'' ''2024-01-02'' ''2024-01-05'' ''TEST_KEY'' ''u''"
  have key: "''TEST_KEY'' \<noteq> []" by simp
  note exhausted = fetch_retry_schedule [where api_key="''TEST_KEY''" and req="?req"
      and ticker="''SPY''" and s="''2024-01-02''" and e="''2024-01-05''" and base_url="''u''"
      and net=always_503 and w=empty_world, OF key refl, THEN conjunct1]
  note recovered = fetch_retry_schedule [where api_key="''TEST_KEY''" and req="?req"
      and ticker="''SPY''" and s="''2024-01-02''" and e="''2024-01-05''" and base_url="''u''"
      and net=recovering and w=empty_world, OF key refl, THEN conjunct2, rule_format, of 2]
  have "\<forall>k<4. retryable (always_503 ?req (length (requests empty_world) + k))"
    by (simp add: always_503_def)
  with exhausted have a: "fetch_ticker_from_tiingo always_503 ''SPY'' ''2024-01-02'' ''2024-01-05''
      ''TEST_KEY'' ''u'' empty_world =
      (Inl (unavailable ''SPY'' (always_503 ?req (length (requests empty_world) + 3))),
       empty_world\<lparr>requests := requests empty_world @ replicate 4 ?req,
         slept := slept empty_world @ [1, 2, 4]\<rparr>)" by blast
  have "(\<forall>j<2. retryable (recovering ?req (length (requests empty_world) + j)))
      \<and> settled (recovering ?req (length (requests empty_world) + 2))"
    by (simp add: recovering_def empty_world_def)
  with recovered have b: "requests (snd (fetch_ticker_from_tiingo recovering ''SPY'' ''2024-01-02''
        ''2024-01-05'' ''TEST_KEY'' ''u'' empty_world)) = requests empty_world @ replicate (Suc 2) ?req
     \<and> slept (snd (fetch_ticker_from_tiingo recovering ''SPY'' ''2024-01-02''
        ''2024-01-05'' ''TEST_KEY'' ''u'' empty_world)) = slept empty_world @ take 2 [1, 2, 4]"
    by simp
  show ?thesis
    unfolding a using b by (simp add: always_503_def recovering_def empty_world_def)
qed

section \<open>Properties of the pandas operations\<close>

lemma astype_Inr:
  "astype conv cs = Inr cs' \<Longrightarrow> list_all2 (\<lambda>c c'. conv c = Inr c') cs cs'"
  by (induction cs arbitrary: cs') (auto split: sum.splits)

lemma astype_total:
  "\<forall>c\<in>set cs. \<exists>c'. conv c = Inr c' \<Longrightarrow> \<exists>cs'. astype conv cs = Inr cs'"
  by (induction cs) (auto split: sum.splits)

lemma to_float64_numeric: "numeric c \<Longrightarrow> \<exists>c'. to_float64 c = Inr c'"
  by (cases c) auto

lemma to_int64_numeric: "numeric c \<Longrightarrow> c \<noteq> NaN \<Longrightarrow> \<exists>c'. to_int64 c = Inr c'"
  by (cases c) auto

lemma to_float64_holds: "to_float64 c = Inr c' \<Longrightarrow> holds Float64 c'"
  by (cases c) auto

lemma to_int64_holds: "to_int64 c = Inr c' \<Longrightarrow> holds Int64 c'"
  by (cases c) auto

lemma to_float64_numeric_iff: "(\<exists>c'. to_float64 c = Inr c') \<longleftrightarrow> numeric c"
  by (cases c) auto

lemma astype_assign:
  assumes "astype conv (map get df) = Inr cs"
  shows "list_all2 (\<lambda>r r'. \<exists>c. conv (get r) = Inr c \<and> r' = put c r) df (assign put cs df)"
proof -
  have "list_all2 (\<lambda>r c'. conv (get r) = Inr c') df cs"
    using astype_Inr [OF assms] by (simp add: list_all2_map1)
  then show ?thesis
    unfolding assign_def by (induction df cs rule: list_all2_induct) auto
qed

lemma all2_same_column:
  "list_all2 (\<lambda>r r'. get r' = get r) df df' \<Longrightarrow> map get df' = map get df"
  by (induction df df' rule: list_all2_induct) auto

lemma all2_compose:
  assumes "list_all2 P xs ys" and "list_all2 Q ys zs"
    and "\<And>x y z. P x y \<Longrightarrow> Q y z \<Longrightarrow> R x z"
  shows "list_all2 R xs zs"
  using assms(1,2)
proof (induction arbitrary: zs rule: list_all2_induct)
  case Nil
  then show ?case by simp
next
  case (Cons x xs y ys)
  then show ?case by (auto simp: list_all2_Cons1 intro: assms(3))
qed

lemma enforce_dtypes_Inr:
  assumes "enforce_dtypes df = Inr fr"
  shows "list_all2 (coerced (volume_conversion (map adjVolume df))) df (rows fr)
    \<and> adjOpen_dtype fr = Float64 \<and> adjClose_dtype fr = Float64
    \<and> adjVolume_dtype fr = (if NaN \<in> set (map adjVolume df) then Float64 else Int64)"
proof -
  obtain opens where o: "astype to_float64 (map adjOpen df) = Inr opens"
    using assms by (auto simp: enforce_dtypes_def split: sum.splits)
  define df1 where "df1 = assign (\<lambda>c r. r\<lparr>adjOpen := c\<rparr>) opens df"
  obtain closes where c: "astype to_float64 (map adjClose df1) = Inr closes"
    using assms o by (auto simp: enforce_dtypes_def df1_def Let_def split: sum.splits)
  define df2 where "df2 = assign (\<lambda>c r. r\<lparr>adjClose := c\<rparr>) closes df1"
  define vol where "vol = volume_conversion (map adjVolume df)"
  have a1: "list_all2 (\<lambda>r r'. \<exists>c. to_float64 (adjOpen r) = Inr c \<and> r' = r\<lparr>adjOpen := c\<rparr>) df df1"
    unfolding df1_def using o by (rule astype_assign)
  have a2: "list_all2 (\<lambda>r r'. \<exists>c. to_float64 (adjClose r) = Inr c \<and> r' = r\<lparr>adjClose := c\<rparr>) df1 df2"
    unfolding df2_def using c by (rule astype_assign)
  have a12: "list_all2 (\<lambda>r r'. \<exists>c c'. to_float64 (adjOpen r) = Inr c
                \<and> to_float64 (adjClose r) = Inr c' \<and> r' = r\<lparr>adjOpen := c, adjClose := c'\<rparr>) df df2"
    by (rule all2_compose [OF a1 a2]) auto
  have "list_all2 (\<lambda>r r'. adjVolume r' = adjVolume r) df df2"
    using a12 by (rule list_all2_mono) auto
  then have vols: "map adjVolume df2 = map adjVolume df" by (rule all2_same_column)
  then have nan: "NaN \<in> adjVolume ` set df2 \<longleftrightarrow> NaN \<in> adjVolume ` set df"
    by (metis list.set_map)
  obtain volumes where v: "astype vol (map adjVolume df2) = Inr volumes"
    and fr: "fr = \<lparr>rows = assign (\<lambda>c r. r\<lparr>adjVolume := c\<rparr>) volumes df2,
                  adjOpen_dtype = Float64, adjClose_dtype = Float64,
                  adjVolume_dtype = (if NaN \<in> set (map adjVolume df) then Float64 else Int64)\<rparr>"
    using assms o c vols nan
    by (auto simp: enforce_dtypes_def df1_def [symmetric] df2_def [symmetric] vol_def
        volume_conversion_def isna_any_def Let_def split: sum.splits if_splits)
  have rs: "rows fr = assign (\<lambda>c r. r\<lparr>adjVolume := c\<rparr>) volumes df2" by (simp add: fr)
  have a3: "list_all2 (\<lambda>r r'. \<exists>c. vol (adjVolume r) = Inr c \<and> r' = r\<lparr>adjVolume := c\<rparr>) df2 (rows fr)"
    unfolding rs using v by (rule astype_assign)
  have "list_all2 (coerced vol) df (rows fr)"
    by (rule all2_compose [OF a12 a3]) (auto simp: coerced_def)
  then show ?thesis unfolding vol_def by (simp add: fr)
qed

lemma coerced_holds:
  assumes "coerced (volume_conversion vs) r r'"
  shows "holds Float64 (adjOpen r') \<and> holds Float64 (adjClose r')
       \<and> holds (if NaN \<in> set vs then Float64 else Int64) (adjVolume r')"
  using assms
  by (auto simp: coerced_def volume_conversion_def dest: to_float64_holds to_int64_holds)

lemma enforce_dtypes_holds:
  assumes "enforce_dtypes df = Inr fr" and "r' \<in> set (rows fr)"
  shows "holds Float64 (adjOpen r') \<and> holds Float64 (adjClose r')
       \<and> holds (adjVolume_dtype fr) (adjVolume r')"
proof -
  note e = enforce_dtypes_Inr [OF assms(1)]
  from e assms(2) obtain r where "coerced (volume_conversion (map adjVolume df)) r r'"
    by (auto simp: list_all2_conv_all_nth in_set_conv_nth)
  from coerced_holds [OF this] e show ?thesis by simp
qed

lemma enforce_dtypes_total:
  assumes "\<forall>r\<in>set df. numeric (adjOpen r) \<and> numeric (adjClose r) \<and> numeric (adjVolume r)"
  shows "\<exists>fr. enforce_dtypes df = Inr fr"
proof -
  obtain opens where o: "astype to_float64 (map adjOpen df) = Inr opens"
    using astype_total [of "map adjOpen df" to_float64] assms to_float64_numeric by auto
  define df1 where "df1 = assign (\<lambda>c r. r\<lparr>adjOpen := c\<rparr>) opens df"
  have a1: "list_all2 (\<lambda>r r'. \<exists>c. to_float64 (adjOpen r) = Inr c \<and> r' = r\<lparr>adjOpen := c\<rparr>) df df1"
    unfolding df1_def using o by (rule astype_assign)
  have c1: "map adjClose df1 = map adjClose df"
    by (rule all2_same_column, rule list_all2_mono [OF a1]) auto
  obtain closes where c: "astype to_float64 (map adjClose df1) = Inr closes"
    unfolding c1 using astype_total [of "map adjClose df" to_float64] assms to_float64_numeric by auto
  define df2 where "df2 = assign (\<lambda>c r. r\<lparr>adjClose := c\<rparr>) closes df1"
  have a2: "list_all2 (\<lambda>r r'. \<exists>c. to_float64 (adjClose r) = Inr c \<and> r' = r\<lparr>adjClose := c\<rparr>) df1 df2"
    unfolding df2_def using c by (rule astype_assign)
  have v1: "map adjVolume df1 = map adjVolume df"
    by (rule all2_same_column, rule list_all2_mono [OF a1]) auto
  have v2: "map adjVolume df2 = map adjVolume df1"
    by (rule all2_same_column, rule list_all2_mono [OF a2]) auto
  have f: "\<exists>vs. astype to_float64 (map adjVolume df2) = Inr vs"
    unfolding v2 v1 using astype_total [of "map adjVolume df" to_float64] assms to_float64_numeric by auto
  have i: "NaN \<notin> set (map adjVolume df) \<Longrightarrow> \<exists>vs. astype to_int64 (map adjVolume df2) = Inr vs"
    unfolding v2 v1 using astype_total [of "map adjVolume df" to_int64] assms to_int64_numeric
    by (metis (no_types, lifting) imageE list.set_map)
  have nan: "NaN \<in> adjVolume ` set df2 \<longleftrightarrow> NaN \<in> adjVolume ` set df"
    using v1 v2 by (metis list.set_map)
  show ?thesis
    using o c f i nan
    by (auto simp: enforce_dtypes_def df1_def [symmetric] df2_def [symmetric] Let_def isna_any_def)
qed

lemma select_first_set:
  "set (select_mask (map Not (duplicated seen (map key df))) df) \<subseteq> set df"
  by (induction df arbitrary: seen) (auto simp: select_mask_def)

lemma select_first_keys:
  "set (map key (select_mask (map Not (duplicated seen (map key df))) df)) = key ` set df - set seen"
  by (induction df arbitrary: seen) (auto simp: select_mask_def)

lemma select_first_distinct:
  "distinct (map key (select_mask (map Not (duplicated seen (map key df))) df))"
proof (induction df arbitrary: seen)
  case Nil
  then show ?case by (simp add: select_mask_def)
next
  case (Cons r df)
  have "key r \<notin> set (map key (select_mask (map Not (duplicated (key r # seen) (map key df))) df))"
    unfolding select_first_keys by simp
  with Cons show ?case by (simp add: select_mask_def)
qed

lemma select_first_Cons:
  "select_mask (map Not (duplicated seen (map key (r # df)))) (r # df) =
      (if key r \<in> set seen then [] else [r]) @
      select_mask (map Not (duplicated (key r # seen) (map key df))) df"
  by (simp add: select_mask_def)

lemma select_first_sorted:
  "sorted (map key df) \<Longrightarrow> sorted (map key (select_mask (map Not (duplicated seen (map key df))) df))"
proof (induction df arbitrary: seen)
  case Nil
  then show ?case by (simp add: select_mask_def)
next
  case (Cons r df)
  have sub: "set (select_mask (map Not (duplicated (key r # seen) (map key df))) df) \<subseteq> set df"
    by (rule select_first_set)
  have "sorted (map key (select_mask (map Not (duplicated (key r # seen) (map key df))) df))"
    using Cons by simp
  moreover have "\<forall>x\<in>set (select_mask (map Not (duplicated (key r # seen) (map key df))) df). key r \<le> key x"
    using Cons.prems sub by auto
  ultimately show ?case unfolding select_first_Cons by simp
qed

lemma select_first_find:
  "find (\<lambda>r. key r = d) (select_mask (map Not (duplicated seen (map key df))) df) =
     (if d \<in> set seen then None else find (\<lambda>r. key r = d) df)"
proof (induction df arbitrary: seen)
  case Nil
  then show ?case by (simp add: select_mask_def)
next
  case (Cons r df)
  have step: "select_mask (map Not (duplicated seen (map key (r # df)))) (r # df) =
      (if key r \<in> set seen then [] else [r]) @
      select_mask (map Not (duplicated (key r # seen) (map key df))) df"
    by (simp add: select_mask_def)
  show ?case unfolding step using Cons.IH [of "key r # seen"] by auto
qed

lemma find_filter: "find P xs = (case filter P xs of [] \<Rightarrow> None | x # _ \<Rightarrow> Some x)"
  by (induction xs) auto

lemma mset_map_snd_sort_key:
  "mset (map snd (sort_key f (enumerate 0 df))) = mset df"
proof -
  have "mset (map snd (sort_key f (enumerate 0 df))) = image_mset snd (mset (sort_key f (enumerate 0 df)))"
    by (simp only: mset_map)
  also have "\<dots> = image_mset snd (mset (enumerate 0 df))" by (simp only: mset_sort)
  also have "\<dots> = mset (map snd (enumerate 0 df))" by (simp only: mset_map)
  also have "\<dots> = mset df" by (simp only: map_snd_enumerate)
  finally show ?thesis .
qed

lemma sort_index_mset: "mset (sort_index rank key df) = mset df"
  unfolding sort_index_def using mset_map_snd_sort_key [of _ df] by simp

lemma sort_index_sorted: "sorted (map key (sort_index rank key df))"
  by (simp add: sort_index_def)

lemma sort_index_set: "set (sort_index rank key df) = set df"
  using sort_index_mset [of rank key df] by (rule mset_eq_setD)

lemma sort_index_id: "sorted (map key df) \<Longrightarrow> sort_index rank key df = df"
  by (simp add: sort_index_def)

lemma select_first_id:
  "distinct (map key df) \<Longrightarrow> set (map key df) \<inter> set seen = {} \<Longrightarrow> select_mask (map Not (duplicated seen (map key df))) df = df"
  by (induction df arbitrary: seen) (auto simp: select_mask_def)


lemma map_sort_index: "map key (sort_index rank key df) = sort (map key df)"
proof (rule sym, rule properties_for_sort)
  show "mset (map key (sort_index rank key df)) = mset (map key df)"
    using sort_index_mset [of rank key df] by (metis mset_map)
  show "sorted (map key (sort_index rank key df))" by (rule sort_index_sorted)
qed

lemma find_distinct:
  "distinct (map key df) \<Longrightarrow> r \<in> set df \<Longrightarrow> find (\<lambda>x. key x = key r) df = Some r"
  by (induction df) (auto simp: rev_image_eqI)

lemma find_all2:
  assumes "list_all2 R xs ys" and "\<And>x y. R x y \<Longrightarrow> P x = Q y"
  shows "rel_option R (find P xs) (find Q ys)"
  using assms(1)
  by (induction xs ys rule: list_all2_induct) (auto simp: assms(2))

lemma find_map: "find P (map g xs) = map_option g (find (P \<circ> g) xs)"
  by (induction xs) auto

section \<open>Properties of the price fetch\<close>

lemma request_loop_Inr:
  assumes "request_loop net req ticker attempts le w = (Inr content, w1)"
  shows "\<exists>n st. length (requests w) \<le> n \<and> length (requests w1) = Suc n \<and> st < 400
           \<and> net req n = Response st content
           \<and> files w1 = files w \<and> dirs w1 = dirs w \<and> warnings w1 = warnings w
           \<and> fs_history w1 = fs_history w"
  using assms
proof (induction attempts arbitrary: le w)
  case Nil
  then show ?case by simp
next
  case (Cons attempt rest)
  let ?w1 = "w\<lparr>requests := requests w @ [req]\<rparr>"
  show ?case
  proof (cases "net req (length (requests w))")
    case (Response st content')
    show ?thesis
    proof (cases "st = 429 \<or> st \<ge> 500")
      case True
      with Cons.prems Response have
        "request_loop net req ticker rest le (time_sleep (BACKOFF_SECONDS ! attempt) ?w1) = (Inr content, w1)"
        by (simp add: requests_get_def split: if_splits)
      from Cons.IH [OF this] show ?thesis
        by (fastforce simp: time_sleep_def dest: Suc_leD)
    next
      case False
      with Cons.prems Response have "content' = content" and "w1 = ?w1" and "st < 400"
        by (auto simp: requests_get_def split: if_splits)
      with Response show ?thesis by auto
    qed
  next
    case (ConnectionFailure exc)
    with Cons.prems have
      "request_loop net req ticker rest (Some exc) (time_sleep (BACKOFF_SECONDS ! attempt) ?w1) = (Inr content, w1)"
      by (simp add: requests_get_def split: if_splits)
    from Cons.IH [OF this] show ?thesis
      by (fastforce simp: time_sleep_def dest: Suc_leD)
  next
    case (OtherFailure exc)
    with Cons.prems show ?thesis by (simp add: requests_get_def)
  qed
qed

lemma fetch_Inr:
  assumes "fetch_ticker_from_tiingo net ticker s e api_key base_url w = (Inr df, w')"
  shows "\<exists>data w1 n st. data \<noteq> [] \<and> normalize ticker data w1 = (Inr df, w')
           \<and> net (tiingo_request ticker s e api_key base_url) n = Response st (Records data)
           \<and> length (requests w) \<le> n \<and> length (requests w') = Suc n \<and> st < 400
           \<and> files w1 = files w \<and> dirs w1 = dirs w \<and> warnings w1 = warnings w
           \<and> fs_history w1 = fs_history w \<and> api_key \<noteq> []"
proof -
  let ?req = "tiingo_request ticker s e api_key base_url"
  from assms have key: "api_key \<noteq> []"
    by (auto simp: fetch_ticker_from_tiingo_def split: if_splits)
  obtain res w1 where loop: "request_loop net ?req ticker [0..<MAX_RETRIES + 1] None w = (res, w1)"
    by (cases "request_loop net ?req ticker [0..<MAX_RETRIES + 1] None w")
  with assms key obtain content where res: "res = Inr content"
    by (cases res) (auto simp: fetch_ticker_from_tiingo_def)
  with assms key loop obtain data where data: "content = Records data"
    by (cases content) (auto simp: fetch_ticker_from_tiingo_def)
  with assms key loop res have ne: "data \<noteq> []" and norm: "normalize ticker data w1 = (Inr df, w')"
    by (auto simp: fetch_ticker_from_tiingo_def split: if_splits)
  from normalize_world [OF norm] have "requests w' = requests w1" by simp
  with request_loop_Inr [OF loop [unfolded res data]] ne norm key
  show ?thesis by metis
qed


lemma sort_and_validate_rows:
  assumes "sort_and_validate ticker fr w = (fr', w')"
  shows "rows fr' = select_mask (map Not (duplicated [] (map date (sort_index (tie_rank w) date (rows fr)))))
                      (sort_index (tie_rank w) date (rows fr))"
    and "adjOpen_dtype fr' = adjOpen_dtype fr" and "adjClose_dtype fr' = adjClose_dtype fr"
    and "adjVolume_dtype fr' = adjVolume_dtype fr"
    and "warnings w' = warnings w @ (if distinct (map date (rows fr)) then []
                                     else [''Duplicate dates removed for '' @ ticker])"
proof -
  let ?sorted = "sort_index (tie_rank w) date (rows fr)"
  have d: "distinct (map date ?sorted) = distinct (map date (rows fr))"
    by (simp add: map_sort_index)
  show "rows fr' = select_mask (map Not (duplicated [] (map date ?sorted))) ?sorted"
    using assms select_first_id [of date ?sorted "[]"]
    by (auto simp: sort_and_validate_def Let_def has_duplicates_def split: if_splits)
  show "adjOpen_dtype fr' = adjOpen_dtype fr" "adjClose_dtype fr' = adjClose_dtype fr"
    "adjVolume_dtype fr' = adjVolume_dtype fr"
    using assms by (auto simp: sort_and_validate_def Let_def split: if_splits)
  show "warnings w' = warnings w @ (if distinct (map date (rows fr)) then []
                                     else [''Duplicate dates removed for '' @ ticker])"
    using assms d
    by (auto simp: sort_and_validate_def Let_def has_duplicates_def logger_warning_def
        split: if_splits)
qed

lemma set_index_date_Inr:
  assumes "set_index_date data = Inr df0"
  shows "df0 = map (\<lambda>x. (wall_day (date_member x), members x)) data"
proof (cases data)
  case Nil
  with assms show ?thesis by simp
next
  case (Cons r rs)
  show ?thesis
  proof (cases "\<forall>x\<in>set rs. tzinfo (date_member x) = tzinfo (date_member r)")
    case True
    from assms show ?thesis
      unfolding Cons by (simp only: set_index_date.simps if_P [OF True] tz_localize_None_def sum.inject)
  next
    case False
    from assms show ?thesis
      unfolding Cons by (simp only: set_index_date.simps if_not_P [OF False] sum.distinct)
  qed
qed

lemma required_columns_Inr:
  assumes "required_columns df0 = Inr df1"
  shows "df1 = map (\<lambda>(d, m). \<lparr>date = d, adjOpen = cell_at m ''adjOpen'', adjClose = cell_at m ''adjClose'',
                         adjVolume = cell_at m ''adjVolume'', others = []\<rparr>) df0"
proof (cases "filter (\<lambda>name. \<not> has_column df0 name) [''adjOpen'', ''adjClose'', ''adjVolume'']")
  case Nil
  with assms show ?thesis by (simp only: required_columns_def list.case sum.inject)
next
  case (Cons name names)
  with assms have "(if df0 = [] then Inr [] else Inl (KeyError name)) = Inr df1"
    by (simp only: required_columns_def list.case)
  then show ?thesis by (cases "df0 = []") simp_all
qed

lemma set_index_date_total:
  assumes "\<forall>x\<in>set data. \<forall>y\<in>set data. tzinfo (date_member x) = tzinfo (date_member y)"
  shows "set_index_date data = Inr (map (\<lambda>x. (wall_day (date_member x), members x)) data)"
proof (cases data)
  case Nil
  then show ?thesis by simp
next
  case (Cons r rs)
  from assms have same: "\<forall>x\<in>set rs. tzinfo (date_member x) = tzinfo (date_member r)"
    unfolding Cons by (metis list.set_intros)
  show ?thesis
    unfolding Cons by (simp only: set_index_date.simps if_P [OF same] tz_localize_None_def)
qed

lemma required_columns_total:
  assumes "\<forall>name\<in>set [''adjOpen'', ''adjClose'', ''adjVolume'']. has_column df0 name"
  shows "required_columns df0 =
     Inr (map (\<lambda>(d, m). \<lparr>date = d, adjOpen = cell_at m ''adjOpen'', adjClose = cell_at m ''adjClose'',
                          adjVolume = cell_at m ''adjVolume'', others = []\<rparr>) df0)"
proof -
  have "filter (\<lambda>name. \<not> has_column df0 name) [''adjOpen'', ''adjClose'', ''adjVolume''] = []"
    using assms by (simp only: filter_empty_conv) blast
  then show ?thesis by (simp only: required_columns_def list.case)
qed

lemma all2_in_set:
  "list_all2 P xs ys \<Longrightarrow> y \<in> set ys \<Longrightarrow> \<exists>x\<in>set xs. P x y"
  by (induction rule: list_all2_induct) auto

lemma plain_number_numeric: "plain_number c \<Longrightarrow> numeric c"
  by (cases c) simp_all

lemma normalize_Inr:
  assumes "normalize ticker data w = (Inr df, w')"
  shows "sorted_wrt (<) (map date (rows df))"
    and "set (map date (rows df)) = (\<lambda>r. wall_day (date_member r)) ` set data"
    and "\<forall>r'\<in>set (rows df). \<exists>r\<in>set data. kept (volume_conversion (volume_column data)) r r'"
    and "sorted (map (\<lambda>r. wall_day (date_member r)) data) \<Longrightarrow>
         \<forall>r'\<in>set (rows df). \<exists>r. find (\<lambda>x. wall_day (date_member x) = date r') data = Some r
            \<and> kept (volume_conversion (volume_column data)) r r'"
    and "adjOpen_dtype df = Float64 \<and> adjClose_dtype df = Float64
         \<and> adjVolume_dtype df = (if NaN \<in> set (volume_column data) then Float64 else Int64)"
    and "\<forall>r'\<in>set (rows df). holds Float64 (adjOpen r') \<and> holds Float64 (adjClose r')
            \<and> holds (adjVolume_dtype df) (adjVolume r')"
    and "warnings w' = warnings w @
           (if distinct (map (\<lambda>r. wall_day (date_member r)) data) then []
            else [''Duplicate dates removed for '' @ ticker])"
proof -
  define g :: "tiingo_record \<Rightarrow> bar" where
    "g = (\<lambda>r. \<lparr>date = wall_day (date_member r), adjOpen = cell_at (members r) ''adjOpen'',
               adjClose = cell_at (members r) ''adjClose'',
               adjVolume = cell_at (members r) ''adjVolume'', others = []\<rparr>)"
  obtain i0 where i0: "set_index_date data = Inr i0"
    using assms by (auto simp: normalize_def split: sum.splits)
  obtain df0 where r0: "required_columns i0 = Inr df0"
    using assms i0 by (auto simp: normalize_def split: sum.splits)
  obtain fr where fr: "enforce_dtypes df0 = Inr fr" and sv: "sort_and_validate ticker fr w = (df, w')"
    using assms i0 r0 by (auto simp: normalize_def split: sum.splits prod.splits)
  have df0: "df0 = map g data"
    unfolding required_columns_Inr [OF r0] set_index_date_Inr [OF i0] g_def by simp
  have vols: "map adjVolume df0 = volume_column data"
    and dates0: "map date df0 = map (\<lambda>r. wall_day (date_member r)) data"
    by (simp_all add: df0 g_def volume_column_def)
  note e = enforce_dtypes_Inr [OF fr, unfolded vols]
  note sr = sort_and_validate_rows [OF sv]
  let ?sorted = "sort_index (tie_rank w) date (rows fr)"
  let ?vol = "volume_conversion (volume_column data)"
  have all2: "list_all2 (coerced ?vol) df0 (rows fr)"
    using e by simp
  have "list_all2 (\<lambda>r r'. date r' = date r) df0 (rows fr)"
    by (rule list_all2_mono [OF all2]) (simp add: coerced_def)
  then have dates: "map date (rows fr) = map (\<lambda>r. wall_day (date_member r)) data"
    unfolding dates0 [symmetric] by (rule all2_same_column)
  have dist: "distinct (map date (rows df))" unfolding sr(1) by (rule select_first_distinct)
  have "sorted (map date (rows df))"
    unfolding sr(1) by (rule select_first_sorted) (rule sort_index_sorted)
  with dist show "sorted_wrt (<) (map date (rows df))" by (simp add: strict_sorted_iff)
  have "set (map date (rows df)) = date ` set ?sorted"
    unfolding sr(1) select_first_keys by simp
  also have "\<dots> = set (map date (rows fr))" by (simp add: sort_index_set)
  finally show "set (map date (rows df)) = (\<lambda>r. wall_day (date_member r)) ` set data"
    unfolding dates by simp
  have sub: "set (rows df) \<subseteq> set (rows fr)"
    unfolding sr(1) using select_first_set [of "[]" date ?sorted] by (simp add: sort_index_set)
  have conv: "kept ?vol r r'" if "coerced ?vol (g r) r'" for r r'
    using that by (simp add: coerced_def kept_def g_def)
  show "\<forall>r'\<in>set (rows df). \<exists>r\<in>set data. kept ?vol r r'"
  proof
    fix r' assume "r' \<in> set (rows df)"
    with sub have "r' \<in> set (rows fr)" by blast
    from all2_in_set [OF all2 this] obtain r where "r \<in> set data" and "coerced ?vol (g r) r'"
      unfolding df0 by auto
    then show "\<exists>r\<in>set data. kept ?vol r r'" using conv by blast
  qed
  show "\<forall>r'\<in>set (rows df). \<exists>r. find (\<lambda>x. wall_day (date_member x) = date r') data = Some r
            \<and> kept ?vol r r'"
    if asc: "sorted (map (\<lambda>r. wall_day (date_member r)) data)"
  proof
    fix r' assume r': "r' \<in> set (rows df)"
    from asc have same: "?sorted = rows fr"
      unfolding dates [symmetric] by (rule sort_index_id)
    have "find (\<lambda>x. date x = date r') (rows df) = Some r'"
      using dist r' by (rule find_distinct)
    then have "find (\<lambda>x. date x = date r') (rows fr) = Some r'"
      unfolding sr(1) same select_first_find by simp
    moreover have "rel_option (coerced ?vol)
        (find (\<lambda>x. date x = date r') df0) (find (\<lambda>x. date x = date r') (rows fr))"
      by (rule find_all2 [OF all2]) (simp add: coerced_def)
    ultimately obtain r0 where r0: "find (\<lambda>x. date x = date r') df0 = Some r0"
      and c: "coerced ?vol r0 r'"
      by (auto simp: option_rel_Some2)
    from r0 obtain r where r: "find (\<lambda>x. wall_day (date_member x) = date r') data = Some r"
      and "r0 = g r"
      unfolding df0 find_map by (auto simp: comp_def g_def)
    with c have "kept ?vol r r'" using conv by simp
    with r show "\<exists>r. find (\<lambda>x. wall_day (date_member x) = date r') data = Some r
            \<and> kept ?vol r r'" by blast
  qed
  show "adjOpen_dtype df = Float64 \<and> adjClose_dtype df = Float64
         \<and> adjVolume_dtype df = (if NaN \<in> set (volume_column data) then Float64 else Int64)"
    using e sr by simp
  show "\<forall>r'\<in>set (rows df). holds Float64 (adjOpen r') \<and> holds Float64 (adjClose r')
            \<and> holds (adjVolume_dtype df) (adjVolume r')"
    using enforce_dtypes_holds [OF fr] sub sr(4) by auto
  show "warnings w' = warnings w @
           (if distinct (map (\<lambda>r. wall_day (date_member r)) data) then []
            else [''Duplicate dates removed for '' @ ticker])"
    using sr(5) unfolding dates .
qed

lemma normalize_total:
  assumes tz: "\<forall>x\<in>set data. \<forall>y\<in>set data. tzinfo (date_member x) = tzinfo (date_member y)"
    and cols: "\<forall>name\<in>set [''adjOpen'', ''adjClose'', ''adjVolume''].
                 (\<exists>r\<in>set data. name \<in> fst ` set (members r))
               \<and> (\<forall>r\<in>set data. plain_number (cell_at (members r) name))"
  shows "\<exists>df w'. normalize ticker data w = (Inr df, w')"
proof -
  let ?i0 = "map (\<lambda>x. (wall_day (date_member x), members x)) data"
  let ?df0 = "map (\<lambda>(d, m). \<lparr>date = d, adjOpen = cell_at m ''adjOpen'',
                  adjClose = cell_at m ''adjClose'', adjVolume = cell_at m ''adjVolume'',
                  others = []\<rparr>) ?i0"
  have i0: "set_index_date data = Inr ?i0" using tz by (rule set_index_date_total)
  have "\<forall>name\<in>set [''adjOpen'', ''adjClose'', ''adjVolume'']. has_column ?i0 name"
    using cols unfolding has_column_def by fastforce
  then have r0: "required_columns ?i0 = Inr ?df0" by (rule required_columns_total)
  have "\<forall>r\<in>set ?df0. numeric (adjOpen r) \<and> numeric (adjClose r) \<and> numeric (adjVolume r)"
    using cols by (auto intro: plain_number_numeric)
  then obtain fr where "enforce_dtypes ?df0 = Inr fr"
    using enforce_dtypes_total by blast
  with i0 r0 show ?thesis
    by (simp add: normalize_def split: prod.splits)
qed

lemma load_ticker_hit:
  assumes "use_cache config" and "files w (cache_path_of config ticker) = Some f"
  shows "load_ticker net ticker config w =
           ((case read_csv_prices f of Inl e \<Rightarrow> Inl e | Inr df \<Rightarrow> enforce_dtypes df), w)"
  using assms by (cases "read_csv_prices f") (simp_all add: load_ticker_def path_exists_def)

text \<open>
  What the type enforcement gives on both paths: float64 prices, and a volume column
  that is int64 if and only if the column had no missing volume when it was inspected.
  In the cache read that column is the one returned; in the fetch it is the column of
  the response, before the rows of a repeated date are removed.
\<close>

lemma inspected_column_dtypes:
  "(fetch_ticker_from_tiingo net ticker s e api_key base_url w = (Inr df, w') \<longrightarrow>
      adjOpen_dtype df = Float64 \<and> adjClose_dtype df = Float64
    \<and> (\<exists>data n st. length (requests w') = Suc n
          \<and> net (tiingo_request ticker s e api_key base_url) n = Response st (Records data)
          \<and> (adjVolume_dtype df = Int64 \<longleftrightarrow> NaN \<notin> set (volume_column data))
          \<and> (adjVolume_dtype df = Float64 \<longleftrightarrow> NaN \<in> set (volume_column data)))
    \<and> (\<forall>r\<in>set (rows df). holds Float64 (adjOpen r) \<and> holds Float64 (adjClose r)
          \<and> holds (adjVolume_dtype df) (adjVolume r)))
 \<and> (use_cache config \<and> files w (cache_path_of config ticker) = Some (PriceCsv rs)
      \<and> load_ticker net ticker config w = (Inr df', w'') \<longrightarrow>
      adjOpen_dtype df' = Float64 \<and> adjClose_dtype df' = Float64
    \<and> (adjVolume_dtype df' = Int64 \<longleftrightarrow> NaN \<notin> set (map adjVolume (rows df')))
    \<and> (adjVolume_dtype df' = Float64 \<longleftrightarrow> NaN \<in> set (map adjVolume (rows df')))
    \<and> (\<forall>r\<in>set (rows df'). holds Float64 (adjOpen r) \<and> holds Float64 (adjClose r)
          \<and> holds (adjVolume_dtype df') (adjVolume r)))"
proof (intro conjI impI)
  assume run: "fetch_ticker_from_tiingo net ticker s e api_key base_url w = (Inr df, w')"
  from fetch_Inr [OF run] obtain data w1 n st where
    norm: "normalize ticker data w1 = (Inr df, w')"
    and resp: "net (tiingo_request ticker s e api_key base_url) n = Response st (Records data)"
    and last: "length (requests w') = Suc n" by blast
  note n = normalize_Inr [OF norm]
  from n(5) show "adjOpen_dtype df = Float64" and "adjClose_dtype df = Float64" by simp_all
  from n(5) have "(adjVolume_dtype df = Int64 \<longleftrightarrow> NaN \<notin> set (volume_column data))
          \<and> (adjVolume_dtype df = Float64 \<longleftrightarrow> NaN \<in> set (volume_column data))" by simp
  with resp last show "\<exists>data n st. length (requests w') = Suc n
          \<and> net (tiingo_request ticker s e api_key base_url) n = Response st (Records data)
          \<and> (adjVolume_dtype df = Int64 \<longleftrightarrow> NaN \<notin> set (volume_column data))
          \<and> (adjVolume_dtype df = Float64 \<longleftrightarrow> NaN \<in> set (volume_column data))" by blast
  from n(6) show "\<forall>r\<in>set (rows df). holds Float64 (adjOpen r) \<and> holds Float64 (adjClose r)
          \<and> holds (adjVolume_dtype df) (adjVolume r)" .
next
  assume hit: "use_cache config \<and> files w (cache_path_of config ticker) = Some (PriceCsv rs)
      \<and> load_ticker net ticker config w = (Inr df', w'')"
  then have e: "enforce_dtypes rs = Inr df'"
    using load_ticker_hit [of config w ticker "PriceCsv rs" net] by simp
  note d = enforce_dtypes_Inr [OF e]
  note h = enforce_dtypes_holds [OF e]
  from d show "adjOpen_dtype df' = Float64" and "adjClose_dtype df' = Float64" by simp_all
  have nan: "NaN \<in> set (map adjVolume (rows df')) \<longleftrightarrow> NaN \<in> set (map adjVolume rs)"
  proof
    assume "NaN \<in> set (map adjVolume (rows df'))"
    then obtain r' where r': "r' \<in> set (rows df')" and v: "adjVolume r' = NaN" by auto
    from all2_in_set [OF d [THEN conjunct1] r'] obtain r where "r \<in> set rs"
      and "volume_conversion (map adjVolume rs) (adjVolume r) = Inr NaN"
      unfolding coerced_def v by auto
    then show "NaN \<in> set (map adjVolume rs)"
      by (cases "adjVolume r") (auto simp: volume_conversion_def split: if_splits)
  next
    assume n: "NaN \<in> set (map adjVolume rs)"
    then obtain r where r: "r \<in> set rs" and v: "adjVolume r = NaN" by auto
    from d have "list_all2 (\<lambda>r' r. coerced (volume_conversion (map adjVolume rs)) r r') (rows df') rs"
      by (simp add: list_all2_conv_all_nth)
    from all2_in_set [OF this r] obtain r' where "r' \<in> set (rows df')"
      and "volume_conversion (map adjVolume rs) (adjVolume r) = Inr (adjVolume r')"
      unfolding coerced_def by auto
    with n v have "adjVolume r' = NaN" by (simp add: volume_conversion_def)
    with \<open>r' \<in> set (rows df')\<close> show "NaN \<in> set (map adjVolume (rows df'))" by force
  qed
  from d nan show "adjVolume_dtype df' = Int64 \<longleftrightarrow> NaN \<notin> set (map adjVolume (rows df'))"
    and "adjVolume_dtype df' = Float64 \<longleftrightarrow> NaN \<in> set (map adjVolume (rows df'))" by simp_all
  show "\<forall>r\<in>set (rows df'). holds Float64 (adjOpen r) \<and> holds Float64 (adjClose r)
          \<and> holds (adjVolume_dtype df') (adjVolume r)"
    using h by blast
qed

text \<open>
  C5 fails on the code. The claim is that the volume column of a fetched series is
  integer-typed if and only if no volume of the column is missing, as the comment at
  line 99 has it. The fetch chooses the dtype at lines 100 to 103, before line 108
  removes the rows of a repeated date. For a response with two records of 2024-01-02,
  the second without a volume, it returns one row whose volume 1000000 is a float64
  in a float64 column that has no missing value.
\<close>

theorem fetch_returns_float64_volume_without_nan:
  "fetch_ticker_from_tiingo (serving duplicate_bars) ''SPY'' ''2024-01-02'' ''2024-01-05''
       ''TEST_KEY'' ''u'' empty_world =
     (Inr \<lparr>rows =
        [\<lparr>date = 19724, adjOpen = FloatV 100, adjClose = FloatV (201 / 2),
          adjVolume = FloatV 1000000, others = []\<rparr>],
        adjOpen_dtype = Float64, adjClose_dtype = Float64, adjVolume_dtype = Float64\<rparr>,
      empty_world\<lparr>requests := [tiingo_request ''SPY'' ''2024-01-02'' ''2024-01-05'' ''TEST_KEY'' ''u''],
        warnings := [''Duplicate dates removed for SPY'']\<rparr>)
   \<and> \<not> isna_any (map adjVolume
        [\<lparr>date = 19724, adjOpen = FloatV 100, adjClose = FloatV (201 / 2),
          adjVolume = FloatV 1000000, others = []\<rparr>])
   \<and> isna_any (volume_column duplicate_bars)"
  by (simp add: loader_defs sample_defs volume_column_def)

text \<open>
  C6, as the code has it. The dates of the frame of every successful price fetch are
  strictly ascending, hence without duplicates. Every date of the response is there,
  with one row, which is a record of the response with that date; it is the first such
  record when the response comes in ascending order of its dates, whatever order the
  sort gives to rows of one date. A warning, nothing else, is logged exactly when the
  response had a date twice. A response with one offset in all its dates, with the
  three columns, and with numbers of 64 bits or missing values in them is never
  refused, whatever dates it repeats.
\<close>

theorem fetch_index_strictly_ascending:
  "(fetch_ticker_from_tiingo net ticker s e api_key base_url w = (Inr df, w') \<longrightarrow>
      sorted_wrt (<) (map date (rows df)) \<and> distinct (map date (rows df))
    \<and> (\<exists>data n st. length (requests w') = Suc n
          \<and> net (tiingo_request ticker s e api_key base_url) n = Response st (Records data)
          \<and> set (map date (rows df)) = (\<lambda>r. wall_day (date_member r)) ` set data
          \<and> (\<forall>r'\<in>set (rows df). \<exists>r\<in>set data.
                kept (volume_conversion (volume_column data)) r r')
          \<and> (sorted (map (\<lambda>r. wall_day (date_member r)) data) \<longrightarrow>
               (\<forall>r'\<in>set (rows df). \<exists>r.
                  find (\<lambda>x. wall_day (date_member x) = date r') data = Some r
                  \<and> kept (volume_conversion (volume_column data)) r r'))
          \<and> warnings w' = warnings w @
               (if distinct (map (\<lambda>r. wall_day (date_member r)) data) then []
                else [''Duplicate dates removed for '' @ ticker])))
 \<and> (api_key \<noteq> []
      \<and> net (tiingo_request ticker s e api_key base_url) (length (requests w)) =
          Response st0 (Records data0)
      \<and> st0 < 400 \<and> data0 \<noteq> []
      \<and> (\<forall>x\<in>set data0. \<forall>y\<in>set data0. tzinfo (date_member x) = tzinfo (date_member y))
      \<and> (\<forall>name\<in>set [''adjOpen'', ''adjClose'', ''adjVolume''].
            (\<exists>r\<in>set data0. name \<in> fst ` set (members r))
          \<and> (\<forall>r\<in>set data0. plain_number (cell_at (members r) name)))
    \<longrightarrow> (\<exists>df0 w0. fetch_ticker_from_tiingo net ticker s e api_key base_url w = (Inr df0, w0)))"
proof (intro conjI impI)
  assume run: "fetch_ticker_from_tiingo net ticker s e api_key base_url w = (Inr df, w')"
  from fetch_Inr [OF run] obtain data w1 n st where
    norm: "normalize ticker data w1 = (Inr df, w')"
    and resp: "net (tiingo_request ticker s e api_key base_url) n = Response st (Records data)"
    and last: "length (requests w') = Suc n" and warn: "warnings w1 = warnings w" by blast
  note n = normalize_Inr [OF norm]
  from n(1) show "sorted_wrt (<) (map date (rows df))" .
  then show "distinct (map date (rows df))" by (simp add: strict_sorted_iff)
  have asc: "sorted (map (\<lambda>r. wall_day (date_member r)) data) \<longrightarrow>
               (\<forall>r'\<in>set (rows df). \<exists>r.
                  find (\<lambda>x. wall_day (date_member x) = date r') data = Some r
                  \<and> kept (volume_conversion (volume_column data)) r r')"
    using n(4) by blast
  from resp last n(2) n(3) asc n(7) [unfolded warn]
  show "\<exists>data n st. length (requests w') = Suc n
          \<and> net (tiingo_request ticker s e api_key base_url) n = Response st (Records data)
          \<and> set (map date (rows df)) = (\<lambda>r. wall_day (date_member r)) ` set data
          \<and> (\<forall>r'\<in>set (rows df). \<exists>r\<in>set data.
                kept (volume_conversion (volume_column data)) r r')
          \<and> (sorted (map (\<lambda>r. wall_day (date_member r)) data) \<longrightarrow>
               (\<forall>r'\<in>set (rows df). \<exists>r.
                  find (\<lambda>x. wall_day (date_member x) = date r') data = Some r
                  \<and> kept (volume_conversion (volume_column data)) r r'))
          \<and> warnings w' = warnings w @
               (if distinct (map (\<lambda>r. wall_day (date_member r)) data) then []
                else [''Duplicate dates removed for '' @ ticker])" by blast
next
  assume ok: "api_key \<noteq> []
      \<and> net (tiingo_request ticker s e api_key base_url) (length (requests w)) =
          Response st0 (Records data0)
      \<and> st0 < 400 \<and> data0 \<noteq> []
      \<and> (\<forall>x\<in>set data0. \<forall>y\<in>set data0. tzinfo (date_member x) = tzinfo (date_member y))
      \<and> (\<forall>name\<in>set [''adjOpen'', ''adjClose'', ''adjVolume''].
            (\<exists>r\<in>set data0. name \<in> fst ` set (members r))
          \<and> (\<forall>r\<in>set data0. plain_number (cell_at (members r) name)))"
  let ?req = "tiingo_request ticker s e api_key base_url"
  let ?w1 = "w\<lparr>requests := requests w @ [?req]\<rparr>"
  have loop: "request_loop net ?req ticker [0..<4] None w = (Inr (Records data0), ?w1)"
    using ok by (simp add: upt_conv_Cons requests_get_def)
  from ok have tz: "\<forall>x\<in>set data0. \<forall>y\<in>set data0. tzinfo (date_member x) = tzinfo (date_member y)"
    and cols: "\<forall>name\<in>set [''adjOpen'', ''adjClose'', ''adjVolume''].
            (\<exists>r\<in>set data0. name \<in> fst ` set (members r))
          \<and> (\<forall>r\<in>set data0. plain_number (cell_at (members r) name))" by blast+
  from normalize_total [OF tz cols, of ticker ?w1]
  obtain df0 w0 where "normalize ticker data0 ?w1 = (Inr df0, w0)" by blast
  with ok loop show "\<exists>df0 w0. fetch_ticker_from_tiingo net ticker s e api_key base_url w = (Inr df0, w0)"
    by (simp add: fetch_ticker_unfold)
qed

theorem fetch_index_strictly_ascending_witness:
  "fetch_ticker_from_tiingo (serving repeated_bars) ''SPY'' ''2024-01-02'' ''2024-01-05''
       ''TEST_KEY'' ''u'' later_first_world =
     (Inr \<lparr>rows =
        [\<lparr>date = 19724, adjOpen = FloatV 100, adjClose = FloatV 1,
          adjVolume = IntV 1000, others = []\<rparr>,
         \<lparr>date = 19725, adjOpen = FloatV 100, adjClose = FloatV 3,
          adjVolume = IntV 1000, others = []\<rparr>],
        adjOpen_dtype = Float64, adjClose_dtype = Float64, adjVolume_dtype = Int64\<rparr>,
      later_first_world\<lparr>requests := [tiingo_request ''SPY'' ''2024-01-02'' ''2024-01-05'' ''TEST_KEY'' ''u''],
        warnings := [''Duplicate dates removed for SPY'']\<rparr>)
   \<and> sorted_wrt (<) [19724, 19725 :: int]
   \<and> sorted (map (\<lambda>r. wall_day (date_member r)) repeated_bars)
   \<and> find (\<lambda>x. wall_day (date_member x) = 19724) repeated_bars = Some (numbered 19724 1)
   \<and> kept (volume_conversion (volume_column repeated_bars)) (numbered 19724 1)
        \<lparr>date = 19724, adjOpen = FloatV 100, adjClose = FloatV 1,
         adjVolume = IntV 1000, others = []\<rparr>
   \<and> (\<exists>df0 w0. fetch_ticker_from_tiingo (serving repeated_bars) ''SPY'' ''2024-01-02''
         ''2024-01-05'' ''TEST_KEY'' ''u'' later_first_world = (Inr df0, w0))"
proof -
  let ?net = "serving repeated_bars"
  have run: "fetch_ticker_from_tiingo ?net ''SPY'' ''2024-01-02'' ''2024-01-05''
       ''TEST_KEY'' ''u'' later_first_world =
     (Inr \<lparr>rows =
        [\<lparr>date = 19724, adjOpen = FloatV 100, adjClose = FloatV 1,
          adjVolume = IntV 1000, others = []\<rparr>,
         \<lparr>date = 19725, adjOpen = FloatV 100, adjClose = FloatV 3,
          adjVolume = IntV 1000, others = []\<rparr>],
        adjOpen_dtype = Float64, adjClose_dtype = Float64, adjVolume_dtype = Int64\<rparr>,
      later_first_world\<lparr>requests := [tiingo_request ''SPY'' ''2024-01-02'' ''2024-01-05'' ''TEST_KEY'' ''u''],
        warnings := [''Duplicate dates removed for SPY'']\<rparr>)"
    by (simp add: loader_defs sample_defs numbered_def repeated_bars_def
        later_first_world_def)
  have ok: "''TEST_KEY'' \<noteq> []
      \<and> ?net (tiingo_request ''SPY'' ''2024-01-02'' ''2024-01-05'' ''TEST_KEY'' ''u'')
            (length (requests later_first_world)) = Response 200 (Records repeated_bars)
      \<and> (200 :: nat) < 400 \<and> repeated_bars \<noteq> []
      \<and> (\<forall>x\<in>set repeated_bars. \<forall>y\<in>set repeated_bars.
            tzinfo (date_member x) = tzinfo (date_member y))
      \<and> (\<forall>name\<in>set [''adjOpen'', ''adjClose'', ''adjVolume''].
            (\<exists>r\<in>set repeated_bars. name \<in> fst ` set (members r))
          \<and> (\<forall>r\<in>set repeated_bars. plain_number (cell_at (members r) name)))"
    by (simp add: sample_defs cell_at_def numbered_def repeated_bars_def
        later_first_world_def)
  from fetch_index_strictly_ascending [THEN conjunct1, rule_format, OF run]
  have "sorted_wrt (<) [19724, 19725 :: int]" by simp
  moreover from fetch_index_strictly_ascending [where net="?net" and ticker="''SPY''"
      and s="''2024-01-02''" and e="''2024-01-05''" and api_key="''TEST_KEY''"
      and base_url="''u''" and w=later_first_world and ?st0.0=200 and ?data0.0=repeated_bars,
      THEN conjunct2, rule_format, OF ok]
  have "\<exists>df0 w0. fetch_ticker_from_tiingo ?net ''SPY'' ''2024-01-02''
         ''2024-01-05'' ''TEST_KEY'' ''u'' later_first_world = (Inr df0, w0)" .
  moreover have "sorted (map (\<lambda>r. wall_day (date_member r)) repeated_bars)"
    and "find (\<lambda>x. wall_day (date_member x) = 19724) repeated_bars = Some (numbered 19724 1)"
    and "kept (volume_conversion (volume_column repeated_bars)) (numbered 19724 1)
        \<lparr>date = 19724, adjOpen = FloatV 100, adjClose = FloatV 1,
         adjVolume = IntV 1000, others = []\<rparr>"
    by (simp_all add: numbered_def repeated_bars_def kept_def volume_conversion_def
        volume_column_def cell_at_def)
  ultimately show ?thesis using run by blast
qed

text \<open>
  The first occurrence does not win on every response. Line 106 does not ask for a
  stable sort, and line 108 keeps the row that the sort has put first. On the eighteen
  records in descending order, where the sort puts the eighth record before the first,
  the row of 2024-01-19 is the eighth record and not the first.
\<close>

theorem later_record_wins_on_descending_response:
  "map_sum id (\<lambda>df. map (\<lambda>r. (date r, adjClose r)) (rows df))
     (fst (fetch_ticker_from_tiingo (serving descending_response) ''SPY'' ''2024-01-02''
             ''2024-01-19'' ''TEST_KEY'' ''u'' later_first_world)) =
     Inr [(19724, FloatV 18), (19725, FloatV 17), (19726, FloatV 16), (19727, FloatV 15),
          (19728, FloatV 14), (19729, FloatV 13), (19730, FloatV 12), (19731, FloatV 11),
          (19732, FloatV 10), (19733, FloatV 9), (19735, FloatV 7), (19736, FloatV 6),
          (19737, FloatV 5), (19738, FloatV 4), (19739, FloatV 3), (19740, FloatV 2),
          (19741, FloatV 8)]
   \<and> find (\<lambda>x. wall_day (date_member x) = 19741) descending_response = Some (numbered 19741 1)
   \<and> warnings (snd (fetch_ticker_from_tiingo (serving descending_response) ''SPY''
        ''2024-01-02'' ''2024-01-19'' ''TEST_KEY'' ''u'' later_first_world)) =
       [''Duplicate dates removed for SPY'']"
  by (simp add: loader_defs sample_defs numbered_def descending_response_def
      later_first_world_def)

section \<open>Properties of the volatility fetch\<close>

lemma ffill_length: "length (ffill l cs) = length cs"
  by (induction cs arbitrary: l) auto

lemma ffill_nth:
  "i < length cs \<Longrightarrow> ffill l cs ! i = last (l # filter (\<lambda>c. c \<noteq> NaN) (take (Suc i) cs))"
proof (induction cs arbitrary: l i)
  case Nil
  then show ?case by simp
next
  case (Cons c cs)
  show ?case
  proof (cases i)
    case 0
    then show ?thesis by simp
  next
    case (Suc j)
    with Cons.prems have "j < length cs" by simp
    from Cons.IH [OF this] Suc show ?thesis by simp
  qed
qed

lemma ffill_no_nan: "l \<noteq> NaN \<Longrightarrow> NaN \<notin> set (ffill l cs)"
  by (induction cs arbitrary: l) auto

lemma filter_all: "\<forall>x\<in>set xs. P x \<Longrightarrow> filter P xs = xs"
  by (induction xs) auto

lemma dropna_ffill:
  "length ds = length cs \<Longrightarrow>
     dropna (zip ds (ffill NaN cs)) =
       drop (length (takeWhile (\<lambda>c. c = NaN) cs)) (zip ds (ffill NaN cs))"
proof (induction cs arbitrary: ds)
  case Nil
  then show ?case by (simp add: dropna_def)
next
  case (Cons c cs)
  then obtain d ds' where ds: "ds = d # ds'" and len: "length ds' = length cs"
    by (cases ds) auto
  show ?case
  proof (cases "c = NaN")
    case True
    with Cons.IH [OF len] ds show ?thesis by (simp add: dropna_def)
  next
    case False
    then have "NaN \<notin> set (ffill c cs)" by (rule ffill_no_nan)
    then have "\<forall>x\<in>set (zip ds' (ffill c cs)). snd x \<noteq> NaN"
      by (auto dest: set_zip_rightD)
    then have "filter (\<lambda>x. snd x \<noteq> NaN) (zip ds' (ffill c cs)) = zip ds' (ffill c cs)"
      by (rule filter_all)
    with False ds show ?thesis by (simp add: dropna_def case_prod_unfold)
  qed
qed

lemma dropna_no_nan: "NaN \<notin> snd ` set (dropna df)"
  by (auto simp: dropna_def)

lemma to_float64_not_nan: "to_float64 c = Inr c' \<Longrightarrow> c \<noteq> NaN \<Longrightarrow> c' \<noteq> NaN"
  by (cases c) auto

lemma fetch_vix_Inr:
  assumes run: "fetch_vix net s e w = (Inr df, w')"
    and resp: "net (vix_request s e) (length (requests w)) = Response st (Feed ls)"
  defines "cs \<equiv> map (\<lambda>c. if c = TextV ''.'' then NaN else c) (map snd ls)"
  defines "k \<equiv> length (takeWhile (\<lambda>c. c = NaN) cs)"
  shows "\<exists>closes. list_all2 (\<lambda>c c'. to_float64 c = Inr c') (drop k (ffill NaN cs)) closes
           \<and> NaN \<notin> set (drop k (ffill NaN cs))
           \<and> vix_rows df = sort_index (tie_rank w) fst (zip (drop k (map fst ls)) closes)
           \<and> vix_close_dtype df = Float64
           \<and> w' = w\<lparr>requests := requests w @ [vix_request s e]\<rparr>"
proof -
  define rd where "rd = map (\<lambda>(d, c). (d, if c = TextV ''.'' then NaN else c)) ls"
  have fst_rd: "map fst rd = map fst ls" and snd_rd: "map snd rd = cs"
    by (simp_all add: rd_def cs_def case_prod_unfold comp_def)
  have len: "length (map fst ls) = length cs" by (simp add: cs_def)
  define df2 where "df2 = dropna (zip (map fst ls) (ffill NaN cs))"
  have df2: "df2 = zip (drop k (map fst ls)) (drop k (ffill NaN cs))"
    unfolding df2_def k_def dropna_ffill [OF len] by (simp add: drop_zip)
  have l2: "length (drop k (map fst ls)) = length (drop k (ffill NaN cs))"
    by (simp add: ffill_length cs_def)
  have snd2: "map snd df2 = drop k (ffill NaN cs)" and fst2: "map fst df2 = drop k (map fst ls)"
    unfolding df2 using l2 by simp_all
  from run resp obtain closes where a: "astype to_float64 (map snd df2) = Inr closes"
    and r: "df = \<lparr>vix_rows = sort_index (tie_rank w) fst (zip (map fst df2) closes), vix_close_dtype = Float64\<rparr>"
    and w: "w' = w\<lparr>requests := requests w @ [vix_request s e]\<rparr>"
    by (auto simp: fetch_vix_def requests_get_def Let_def rd_def [symmetric] fst_rd snd_rd
        df2_def [symmetric] split: if_splits sum.splits)
  have "NaN \<notin> set (map snd df2)"
    unfolding df2_def using dropna_no_nan [of "zip (map fst ls) (ffill NaN cs)"] by simp
  with astype_Inr [OF a] r w show ?thesis
    unfolding snd2 fst2 by auto
qed

lemma filter_valid:
  "filter (\<lambda>c. c \<noteq> NaN) (map (\<lambda>c. if c = TextV ''.'' then NaN else c) xs) =
     filter (\<lambda>c. \<not> missing c) xs"
  by (induction xs) (auto simp: missing_def)

lemma takeWhile_missing:
  "length (takeWhile (\<lambda>c. c = NaN) (map (\<lambda>c. if c = TextV ''.'' then NaN else c) (map snd ls))) =
     length (takeWhile (\<lambda>(d, c). missing c) ls)"
  by (induction ls) (auto simp: missing_def)

lemma takeWhile_stops:
  "j < length xs \<Longrightarrow> \<not> P (xs ! j) \<Longrightarrow> length (takeWhile P xs) \<le> j"
  by (induction xs arbitrary: j) (auto simp: nth_Cons split: nat.splits)

lemma ffill_numeric:
  "numeric l \<Longrightarrow> \<forall>c\<in>set cs. numeric c \<Longrightarrow> \<forall>c\<in>set (ffill l cs). numeric c"
  by (induction cs arbitrary: l) auto

lemma fetch_vix_total:
  assumes "st < 400" and "net (vix_request s e) (length (requests w)) = Response st (Feed ls)"
    and "\<forall>(d, c)\<in>set ls. numeric c \<or> c = TextV ''.''"
  shows "\<exists>df w'. fetch_vix net s e w = (Inr df, w')"
proof -
  define rd where "rd = map (\<lambda>(d, c). (d, if c = TextV ''.'' then NaN else c)) ls"
  have "\<forall>c\<in>set (map snd rd). numeric c"
    using assms(3) by (auto simp: rd_def)
  then have "\<forall>c\<in>set (ffill NaN (map snd rd)). numeric c"
    by (intro ffill_numeric) simp_all
  then have "\<forall>c\<in>set (map snd (dropna (zip (map fst rd) (ffill NaN (map snd rd))))). numeric c"
    by (auto simp: dropna_def dest: set_zip_rightD)
  then have "\<exists>closes. astype to_float64
      (map snd (dropna (zip (map fst rd) (ffill NaN (map snd rd))))) = Inr closes"
    by (intro astype_total) (simp add: to_float64_numeric)
  with assms(1,2) show ?thesis
    by (auto simp: fetch_vix_def requests_get_def Let_def rd_def [symmetric])
qed

text \<open>
  C7. In the frame of every successful volatility fetch no value is missing. A line of
  the feed whose value is missing (the sentinel \<^verbatim>\<open>.\<close> or an empty field) and that comes
  after a line with a value is in the frame with the last value before it in the feed;
  the dates of the frame are, in ascending order, the dates of the feed from its first
  line with a value on: the lines before it are dropped. A feed of numbers and
  sentinels is always accepted.
\<close>

theorem vix_forward_fill:
  "(fetch_vix net s e w = (Inr df, w')
      \<and> net (vix_request s e) (length (requests w)) = Response st (Feed ls) \<longrightarrow>
      NaN \<notin> snd ` set (vix_rows df)
    \<and> (\<forall>i<length ls. missing (snd (ls ! i)) \<and> (\<exists>j<i. \<not> missing (snd (ls ! j))) \<longrightarrow>
         (\<exists>v. to_float64 (last (filter (\<lambda>c. \<not> missing c) (take i (map snd ls)))) = Inr v
              \<and> (fst (ls ! i), v) \<in> set (vix_rows df)))
    \<and> map fst (vix_rows df) = sort (map fst (dropWhile (\<lambda>(d, c). missing c) ls)))
 \<and> (st0 < 400 \<and> net (vix_request s e) (length (requests w)) = Response st0 (Feed ls0)
      \<and> (\<forall>(d, c)\<in>set ls0. numeric c \<or> c = TextV ''.'')
    \<longrightarrow> (\<exists>df0 w0. fetch_vix net s e w = (Inr df0, w0)))"
proof (intro conjI impI)
  assume "st0 < 400 \<and> net (vix_request s e) (length (requests w)) = Response st0 (Feed ls0)
      \<and> (\<forall>(d, c)\<in>set ls0. numeric c \<or> c = TextV ''.'')"
  then show "\<exists>df0 w0. fetch_vix net s e w = (Inr df0, w0)"
    using fetch_vix_total [of st0 net s e w ls0] by blast
next
  assume run: "fetch_vix net s e w = (Inr df, w')
      \<and> net (vix_request s e) (length (requests w)) = Response st (Feed ls)"
  define cs where "cs = map (\<lambda>c. if c = TextV ''.'' then NaN else c) (map snd ls)"
  define k where "k = length (takeWhile (\<lambda>c. c = NaN) cs)"
  define ds where "ds = map fst ls"
  from fetch_vix_Inr [of net s e w df w' st ls] run
  obtain closes where all2: "list_all2 (\<lambda>c c'. to_float64 c = Inr c') (drop k (ffill NaN cs)) closes"
    and nonan: "NaN \<notin> set (drop k (ffill NaN cs))"
    and rws: "vix_rows df = sort_index (tie_rank w) fst (zip (drop k ds) closes)"
    unfolding cs_def k_def ds_def by blast
  have lcs: "length cs = length ls" by (simp add: cs_def)
  have lcl: "length closes = length ls - k"
    using list_all2_lengthD [OF all2] by (simp add: ffill_length lcs)
  have set_rows: "set (vix_rows df) = set (zip (drop k ds) closes)"
    unfolding rws by (simp add: sort_index_set)
  show "NaN \<notin> snd ` set (vix_rows df)"
  proof
    assume "NaN \<in> snd ` set (vix_rows df)"
    then have "NaN \<in> set closes" unfolding set_rows by (auto dest: set_zip_rightD)
    then obtain n where n: "n < length closes" and "closes ! n = NaN"
      by (auto simp: in_set_conv_nth)
    with list_all2_nthD2 [OF all2 n] have "to_float64 (drop k (ffill NaN cs) ! n) = Inr NaN"
      by simp
    moreover have "drop k (ffill NaN cs) ! n \<noteq> NaN"
      using nonan n list_all2_lengthD [OF all2] by (metis nth_mem)
    ultimately show False by (auto dest: to_float64_not_nan)
  qed
  have kdrop: "length (takeWhile (\<lambda>(d, c). missing c) ls) = k"
    unfolding k_def cs_def by (rule takeWhile_missing [symmetric])
  have "map fst (vix_rows df) = sort (map fst (zip (drop k ds) closes))"
    unfolding rws by (rule map_sort_index)
  also have "map fst (zip (drop k ds) closes) = drop k ds"
    using lcl by (simp add: ds_def)
  also have "drop k ds = map fst (dropWhile (\<lambda>(d, c). missing c) ls)"
    unfolding dropWhile_eq_drop kdrop by (simp add: ds_def drop_map)
  finally show "map fst (vix_rows df) = sort (map fst (dropWhile (\<lambda>(d, c). missing c) ls))" .
  show "\<forall>i<length ls. missing (snd (ls ! i)) \<and> (\<exists>j<i. \<not> missing (snd (ls ! j))) \<longrightarrow>
         (\<exists>v. to_float64 (last (filter (\<lambda>c. \<not> missing c) (take i (map snd ls)))) = Inr v
              \<and> (fst (ls ! i), v) \<in> set (vix_rows df))"
  proof (intro allI impI)
    fix i assume i: "i < length ls"
      and pre: "missing (snd (ls ! i)) \<and> (\<exists>j<i. \<not> missing (snd (ls ! j)))"
    then obtain j where j: "j < i" and valid: "\<not> missing (snd (ls ! j))" by blast
    have csi: "cs ! i = NaN" using pre i by (auto simp: cs_def missing_def)
    have csj: "cs ! j \<noteq> NaN" using valid j i by (auto simp: cs_def missing_def)
    have kj: "k \<le> j"
      unfolding k_def using csj j i lcs by (intro takeWhile_stops) simp_all
    let ?F = "filter (\<lambda>c. \<not> missing c) (take i (map snd ls))"
    have "snd (ls ! j) \<in> set (take i (map snd ls))"
      using j i by (auto simp: in_set_conv_nth intro!: exI [of _ j])
    with valid have ne: "?F \<noteq> []" by (auto simp: filter_empty_conv)
    have "take (Suc i) cs = take i cs @ [NaN]"
      using i lcs csi by (simp add: take_Suc_conv_app_nth)
    then have "filter (\<lambda>c. c \<noteq> NaN) (take (Suc i) cs) = filter (\<lambda>c. c \<noteq> NaN) (take i cs)"
      by simp
    also have "\<dots> = ?F"
      unfolding cs_def take_map using filter_valid [of "take i (map snd ls)"]
      by (simp only: take_map)
    finally have fi: "ffill NaN cs ! i = last ?F"
      using ffill_nth [of i cs NaN] i lcs ne by simp
    have ik: "i - k < length closes" using i kj j lcl by simp
    have "drop k (ffill NaN cs) ! (i - k) = ffill NaN cs ! i"
      using kj j i by (simp add: ffill_length lcs)
    with list_all2_nthD2 [OF all2 ik] fi
    have v: "to_float64 (last ?F) = Inr (closes ! (i - k))" by simp
    have "zip (drop k ds) closes ! (i - k) = (fst (ls ! i), closes ! (i - k))"
      using ik lcl i kj j by (simp add: ds_def)
    moreover have "i - k < length (zip (drop k ds) closes)" using ik lcl by (simp add: ds_def)
    ultimately have "(fst (ls ! i), closes ! (i - k)) \<in> set (zip (drop k ds) closes)"
      by (metis nth_mem)
    with v show "\<exists>v. to_float64 (last ?F) = Inr v \<and> (fst (ls ! i), v) \<in> set (vix_rows df)"
      unfolding set_rows by blast
  qed
qed

theorem vix_forward_fill_witness:
  "fetch_vix (fred vix_feed) ''2024-01-01'' ''2024-01-04'' empty_world =
     (Inr \<lparr>vix_rows = [(19724, FloatV 15), (19725, FloatV 15), (19726, FloatV 16)],
           vix_close_dtype = Float64\<rparr>,
      empty_world\<lparr>requests := [vix_request ''2024-01-01'' ''2024-01-04'']\<rparr>)
   \<and> fred vix_feed (vix_request ''2024-01-01'' ''2024-01-04'') (length (requests empty_world)) =
       Response 200 (Feed vix_feed)
   \<and> missing (snd (vix_feed ! 2)) \<and> \<not> missing (snd (vix_feed ! 1))
   \<and> NaN \<notin> snd ` set [(19724, FloatV 15), (19725, FloatV 15), (19726 :: int, FloatV 16)]
   \<and> dropWhile (\<lambda>(d, c). missing c) vix_feed =
       [(19724, FloatV 15), (19725, TextV ''.''), (19726, FloatV 16)]"
proof -
  have run: "fetch_vix (fred vix_feed) ''2024-01-01'' ''2024-01-04'' empty_world =
     (Inr \<lparr>vix_rows = [(19724, FloatV 15), (19725, FloatV 15), (19726, FloatV 16)],
           vix_close_dtype = Float64\<rparr>,
      empty_world\<lparr>requests := [vix_request ''2024-01-01'' ''2024-01-04'']\<rparr>)
   \<and> fred vix_feed (vix_request ''2024-01-01'' ''2024-01-04'') (length (requests empty_world)) =
       Response 200 (Feed vix_feed)"
    by (simp add: loader_defs sample_defs)
  from vix_forward_fill [THEN conjunct1, rule_format, OF run]
  have "NaN \<notin> snd ` set [(19724, FloatV 15), (19725, FloatV 15), (19726 :: int, FloatV 16)]"
    by simp
  moreover have "missing (snd (vix_feed ! 2)) \<and> \<not> missing (snd (vix_feed ! 1))"
    by (simp add: vix_feed_def missing_def)
  moreover have "dropWhile (\<lambda>(d, c). missing c) vix_feed =
       [(19724, FloatV 15), (19725, TextV ''.''), (19726, FloatV 16)]"
    by (simp add: vix_feed_def missing_def)
  ultimately show ?thesis using run by blast
qed

text \<open>
  C9. A volatility response with a 2xx status whose feed has no line gives the empty
  frame with no failure; the same response on the price fetch, an array of no records,
  is refused with the empty-response \<^verbatim>\<open>ValueError\<close>. Only the price fetch checks for it.
\<close>

theorem empty_feed_returns_empty_frame:
  "(200 \<le> st \<and> st < 300
      \<and> net (vix_request s e) (length (requests w)) = Response st (Feed []) \<longrightarrow>
      fetch_vix net s e w =
        (Inr \<lparr>vix_rows = [], vix_close_dtype = Float64\<rparr>,
         w\<lparr>requests := requests w @ [vix_request s e]\<rparr>))
 \<and> (api_key \<noteq> [] \<and> 200 \<le> st \<and> st < 300
      \<and> net (tiingo_request ticker s e api_key base_url) (length (requests w)) =
          Response st (Records []) \<longrightarrow>
      fetch_ticker_from_tiingo net ticker s e api_key base_url w =
        (Inl (ValueError (EmptyResponse ticker)),
         w\<lparr>requests := requests w @ [tiingo_request ticker s e api_key base_url]\<rparr>))"
proof (intro conjI impI)
  assume "200 \<le> st \<and> st < 300
      \<and> net (vix_request s e) (length (requests w)) = Response st (Feed [])"
  then show "fetch_vix net s e w =
        (Inr \<lparr>vix_rows = [], vix_close_dtype = Float64\<rparr>,
         w\<lparr>requests := requests w @ [vix_request s e]\<rparr>)"
    by (simp add: fetch_vix_def requests_get_def dropna_def sort_index_def)
next
  assume a: "api_key \<noteq> [] \<and> 200 \<le> st \<and> st < 300
      \<and> net (tiingo_request ticker s e api_key base_url) (length (requests w)) =
          Response st (Records [])"
  then have "request_loop net (tiingo_request ticker s e api_key base_url) ticker [0..<4] None w =
      (Inr (Records []), w\<lparr>requests := requests w @ [tiingo_request ticker s e api_key base_url]\<rparr>)"
    by (simp add: upt_conv_Cons requests_get_def)
  with a show "fetch_ticker_from_tiingo net ticker s e api_key base_url w =
        (Inl (ValueError (EmptyResponse ticker)),
         w\<lparr>requests := requests w @ [tiingo_request ticker s e api_key base_url]\<rparr>)"
    by (simp add: fetch_ticker_unfold)
qed

theorem empty_feed_returns_empty_frame_witness:
  "fred [] (vix_request ''2024-01-02'' ''2024-01-05'') (length (requests empty_world)) =
     Response 200 (Feed [])
   \<and> fetch_vix (fred []) ''2024-01-02'' ''2024-01-05'' empty_world =
       (Inr \<lparr>vix_rows = [], vix_close_dtype = Float64\<rparr>,
        empty_world\<lparr>requests := [vix_request ''2024-01-02'' ''2024-01-05'']\<rparr>)
   \<and> fetch_ticker_from_tiingo (serving []) ''SPY'' ''2024-01-02'' ''2024-01-05'' ''TEST_KEY''
        ''u'' empty_world =
       (Inl (ValueError (EmptyResponse ''SPY'')),
        empty_world\<lparr>requests :=
          [tiingo_request ''SPY'' ''2024-01-02'' ''2024-01-05'' ''TEST_KEY'' ''u'']\<rparr>)"
proof -
  have v: "(200 :: nat) \<le> 200 \<and> (200 :: nat) < 300
     \<and> fred [] (vix_request ''2024-01-02'' ''2024-01-05'') (length (requests empty_world)) =
       Response 200 (Feed [])"
    by (simp add: fred_def)
  have p: "''TEST_KEY'' \<noteq> [] \<and> (200 :: nat) \<le> 200 \<and> (200 :: nat) < 300
     \<and> serving [] (tiingo_request ''SPY'' ''2024-01-02'' ''2024-01-05'' ''TEST_KEY'' ''u'')
         (length (requests empty_world)) = Response 200 (Records [])"
    by (simp add: serving_def)
  note a = empty_feed_returns_empty_frame [where st=200 and net="fred []" and s="''2024-01-02''"
      and e="''2024-01-05''" and w=empty_world, THEN conjunct1, rule_format, OF v]
  note b = empty_feed_returns_empty_frame [where st=200 and net="serving []"
      and s="''2024-01-02''" and e="''2024-01-05''" and w=empty_world and api_key="''TEST_KEY''"
      and ticker="''SPY''" and base_url="''u''", THEN conjunct2, rule_format, OF p]
  from a b v show ?thesis by (simp add: empty_world_def)
qed

section \<open>Properties of the cache\<close>

lemma load_vix_hit:
  assumes "use_cache config" and "files w (vix_cache_path config) = Some g"
  shows "load_vix net config w =
           ((case read_csv_vix g of
               Inl e \<Rightarrow> Inl e
             | Inr df \<Rightarrow>
                 (case astype to_float64 (map snd df) of
                    Inl e \<Rightarrow> Inl e
                  | Inr closes \<Rightarrow>
                      Inr \<lparr>vix_rows = zip (map fst df) closes, vix_close_dtype = Float64\<rparr>)), w)"
  using assms by (auto simp: load_vix_def path_exists_def split: sum.splits)

lemma load_vix_hit_Inr:
  assumes "use_cache config" and "files w (vix_cache_path config) = Some g"
    and "load_vix net config w = (Inr fr, w')"
  shows "\<exists>ls. g = VixCsv ls \<and> map fst (vix_rows fr) = map fst ls
           \<and> list_all2 (\<lambda>c c'. to_float64 c = Inr c') (map snd ls) (map snd (vix_rows fr))
           \<and> vix_close_dtype fr = Float64 \<and> w' = w"
proof -
  note h = assms(3) [unfolded load_vix_hit [OF assms(1,2)]]
  from h obtain ls where g: "g = VixCsv ls" by (cases g) auto
  from h g obtain closes where a: "astype to_float64 (map snd ls) = Inr closes"
    and fr: "fr = \<lparr>vix_rows = zip (map fst ls) closes, vix_close_dtype = Float64\<rparr>" and w: "w' = w"
    by (auto split: sum.splits)
  from astype_Inr [OF a] have all2: "list_all2 (\<lambda>c c'. to_float64 c = Inr c') (map snd ls) closes" .
  from list_all2_lengthD [OF all2] have "length closes = length ls" by simp
  with all2 g fr w show ?thesis by simp
qed

lemma load_ticker_hit_Inr:
  assumes "use_cache config" and "files w (cache_path_of config ticker) = Some f"
    and "load_ticker net ticker config w = (Inr fr, w')"
  shows "\<exists>rs. f = PriceCsv rs \<and> enforce_dtypes rs = Inr fr \<and> w' = w"
proof -
  note h = assms(3) [unfolded load_ticker_hit [OF assms(1,2)]]
  from h obtain rs where f: "f = PriceCsv rs" by (cases f) auto
  with h show ?thesis by auto
qed

text \<open>
  C1. With \<^verbatim>\<open>use_cache\<close> on and the artifact of the series there, \<^verbatim>\<open>load_ticker\<close> and
  \<^verbatim>\<open>load_vix\<close> send no request and leave the world as it is, whatever the API key and the
  network, and what they return is the artifact read and type-enforced, nothing else:
  the rows of the artifact in their order, each cell converted to its column's dtype.
  An artifact of numbers and missing values is always returned.
\<close>

theorem cache_hit_without_network:
  assumes "use_cache config"
  shows "(files w (cache_path_of config ticker) = Some f \<longrightarrow>
            load_ticker net ticker config w =
              ((case read_csv_prices f of Inl e \<Rightarrow> Inl e | Inr df \<Rightarrow> enforce_dtypes df), w)
          \<and> requests (snd (load_ticker net ticker config w)) = requests w
          \<and> (\<forall>fr. fst (load_ticker net ticker config w) = Inr fr \<longrightarrow>
                (\<exists>rs. f = PriceCsv rs
                   \<and> list_all2 (coerced (volume_conversion (map adjVolume rs))) rs (rows fr)))
          \<and> (\<forall>rs. f = PriceCsv rs
                \<and> (\<forall>r\<in>set rs. numeric (adjOpen r) \<and> numeric (adjClose r) \<and> numeric (adjVolume r))
                \<longrightarrow> (\<exists>fr. fst (load_ticker net ticker config w) = Inr fr)))
       \<and> (files w (vix_cache_path config) = Some g \<longrightarrow>
            requests (snd (load_vix net config w)) = requests w
          \<and> snd (load_vix net config w) = w
          \<and> (\<forall>fr. fst (load_vix net config w) = Inr fr \<longrightarrow>
                (\<exists>ls. g = VixCsv ls \<and> map fst (vix_rows fr) = map fst ls
                   \<and> list_all2 (\<lambda>c c'. to_float64 c = Inr c') (map snd ls) (map snd (vix_rows fr))))
          \<and> (\<forall>ls. g = VixCsv ls \<and> (\<forall>c\<in>set (map snd ls). numeric c)
                \<longrightarrow> (\<exists>fr. fst (load_vix net config w) = Inr fr)))"
proof (intro conjI impI allI)
  assume f: "files w (cache_path_of config ticker) = Some f"
  note hit = load_ticker_hit [OF assms f, of net]
  show "load_ticker net ticker config w =
      ((case read_csv_prices f of Inl e \<Rightarrow> Inl e | Inr df \<Rightarrow> enforce_dtypes df), w)"
    by (rule hit)
  show "requests (snd (load_ticker net ticker config w)) = requests w"
    by (simp add: hit)
  show "\<exists>rs. f = PriceCsv rs \<and> list_all2 (coerced (volume_conversion (map adjVolume rs))) rs (rows fr)"
    if "fst (load_ticker net ticker config w) = Inr fr" for fr
  proof -
    from that have "load_ticker net ticker config w = (Inr fr, snd (load_ticker net ticker config w))"
      by (metis prod.collapse)
    from load_ticker_hit_Inr [OF assms f this] obtain rs where
      "f = PriceCsv rs" and "enforce_dtypes rs = Inr fr" by blast
    with enforce_dtypes_Inr [of rs fr] show ?thesis by blast
  qed
  show "\<exists>fr. fst (load_ticker net ticker config w) = Inr fr"
    if "f = PriceCsv rs
       \<and> (\<forall>r\<in>set rs. numeric (adjOpen r) \<and> numeric (adjClose r) \<and> numeric (adjVolume r))" for rs
    using that enforce_dtypes_total [of rs] by (auto simp: hit)
next
  assume g: "files w (vix_cache_path config) = Some g"
  note hit = load_vix_hit [OF assms g, of net]
  show "requests (snd (load_vix net config w)) = requests w" and "snd (load_vix net config w) = w"
    by (simp_all add: hit)
  show "\<exists>ls. g = VixCsv ls \<and> map fst (vix_rows fr) = map fst ls
           \<and> list_all2 (\<lambda>c c'. to_float64 c = Inr c') (map snd ls) (map snd (vix_rows fr))"
    if "fst (load_vix net config w) = Inr fr" for fr
  proof -
    from that have "load_vix net config w = (Inr fr, snd (load_vix net config w))"
      by (metis prod.collapse)
    from load_vix_hit_Inr [OF assms g this] show ?thesis by blast
  qed
  show "\<exists>fr. fst (load_vix net config w) = Inr fr"
    if "g = VixCsv ls \<and> (\<forall>c\<in>set (map snd ls). numeric c)" for ls
  proof -
    from that have "\<exists>closes. astype to_float64 (map snd ls) = Inr closes"
      by (intro astype_total) (simp add: to_float64_numeric)
    with that show ?thesis by (auto simp: hit)
  qed
qed

theorem cache_hit_without_network_witness:
  "use_cache offline_config
   \<and> tiingo_api_key offline_config = []
   \<and> files fixture_world (cache_path_of offline_config ''MGK'') = Some (PriceCsv mgk_fixture)
   \<and> load_ticker always_503 ''MGK'' offline_config fixture_world =
       (Inr \<lparr>rows = mgk_fixture, adjOpen_dtype = Float64, adjClose_dtype = Float64,
             adjVolume_dtype = Int64\<rparr>, fixture_world)
   \<and> requests (snd (load_ticker always_503 ''MGK'' offline_config fixture_world)) = []
   \<and> files vix_world (vix_cache_path offline_config) = Some (VixCsv gappy_vix)
   \<and> requests (snd (load_vix always_503 offline_config vix_world)) = []"
proof -
  have c: "use_cache offline_config" by (simp add: offline_config_def)
  have f: "files fixture_world (cache_path_of offline_config ''MGK'') = Some (PriceCsv mgk_fixture)"
    by (simp add: loader_defs sample_defs)
  have g: "files vix_world (vix_cache_path offline_config) = Some (VixCsv gappy_vix)"
    by (simp add: loader_defs sample_defs)
  note t = cache_hit_without_network [OF c, where w=fixture_world and ticker="''MGK''"
      and f="PriceCsv mgk_fixture" and net=always_503, THEN conjunct1, rule_format, OF f]
  note v = cache_hit_without_network [OF c, where w=vix_world and g="VixCsv gappy_vix"
      and net=always_503, THEN conjunct2, rule_format, OF g]
  from t have "load_ticker always_503 ''MGK'' offline_config fixture_world =
      (enforce_dtypes mgk_fixture, fixture_world)
    \<and> requests (snd (load_ticker always_503 ''MGK'' offline_config fixture_world)) = requests fixture_world"
    by simp
  moreover have "enforce_dtypes mgk_fixture = Inr \<lparr>rows = mgk_fixture, adjOpen_dtype = Float64,
      adjClose_dtype = Float64, adjVolume_dtype = Int64\<rparr>"
    by (simp add: loader_defs sample_defs)
  moreover from v
  have "requests (snd (load_vix always_503 offline_config vix_world)) = requests vix_world"
    by simp
  ultimately show ?thesis using c f g by (simp add: sample_defs)
qed

text \<open>
  C10. On a cache hit \<^verbatim>\<open>load_vix\<close> returns the lines of the artifact one for one, in
  their order and with their dates, the value of each converted to float64 and nothing
  else: a missing value of the artifact is a missing value of the frame. The world is
  left as it is. An artifact of numbers and missing values is always returned.
\<close>

theorem load_vix_hit_passes_rows_through:
  assumes "use_cache config" and "files w (vix_cache_path config) = Some (VixCsv ls)"
  shows "((\<forall>c\<in>set (map snd ls). numeric c) \<longrightarrow> (\<exists>fr. load_vix net config w = (Inr fr, w)))
       \<and> (load_vix net config w = (Inr fr, w') \<longrightarrow>
            w' = w \<and> vix_close_dtype fr = Float64 \<and> length (vix_rows fr) = length ls
          \<and> (\<forall>i<length ls. fst (vix_rows fr ! i) = fst (ls ! i)
               \<and> to_float64 (snd (ls ! i)) = Inr (snd (vix_rows fr ! i))
               \<and> (snd (ls ! i) = NaN \<longrightarrow> snd (vix_rows fr ! i) = NaN)))"
proof (intro conjI impI)
  assume "\<forall>c\<in>set (map snd ls). numeric c"
  then have "\<exists>closes. astype to_float64 (map snd ls) = Inr closes"
    by (intro astype_total) (simp add: to_float64_numeric)
  then show "\<exists>fr. load_vix net config w = (Inr fr, w)"
    by (auto simp: load_vix_hit [OF assms])
next
  assume run: "load_vix net config w = (Inr fr, w')"
  from load_vix_hit_Inr [OF assms run]
  have dates: "map fst (vix_rows fr) = map fst ls"
    and all2: "list_all2 (\<lambda>c c'. to_float64 c = Inr c') (map snd ls) (map snd (vix_rows fr))"
    and dt: "vix_close_dtype fr = Float64" and w: "w' = w" by auto
  from w show "w' = w" .
  from dt show "vix_close_dtype fr = Float64" .
  from dates show len: "length (vix_rows fr) = length ls" by (metis length_map)
  show "\<forall>i<length ls. fst (vix_rows fr ! i) = fst (ls ! i)
               \<and> to_float64 (snd (ls ! i)) = Inr (snd (vix_rows fr ! i))
               \<and> (snd (ls ! i) = NaN \<longrightarrow> snd (vix_rows fr ! i) = NaN)"
  proof (intro allI impI)
    fix i assume i: "i < length ls"
    have "map fst (vix_rows fr) ! i = map fst ls ! i" by (simp add: dates)
    then have d: "fst (vix_rows fr ! i) = fst (ls ! i)" using i len by simp
    have "to_float64 (map snd ls ! i) = Inr (map snd (vix_rows fr) ! i)"
      using list_all2_nthD [OF all2, of i] i by simp
    then have c: "to_float64 (snd (ls ! i)) = Inr (snd (vix_rows fr ! i))" using i len by simp
    then have "snd (ls ! i) = NaN \<longrightarrow> snd (vix_rows fr ! i) = NaN" by auto
    with d c show "fst (vix_rows fr ! i) = fst (ls ! i)
               \<and> to_float64 (snd (ls ! i)) = Inr (snd (vix_rows fr ! i))
               \<and> (snd (ls ! i) = NaN \<longrightarrow> snd (vix_rows fr ! i) = NaN)" by blast
  qed
qed

theorem load_vix_hit_passes_rows_through_witness:
  "use_cache offline_config
   \<and> files vix_world (vix_cache_path offline_config) = Some (VixCsv gappy_vix)
   \<and> load_vix always_503 offline_config vix_world =
       (Inr \<lparr>vix_rows = [(19725, NaN), (19724, FloatV 15), (19724, FloatV 16), (19726, NaN)],
             vix_close_dtype = Float64\<rparr>, vix_world)
   \<and> snd (gappy_vix ! 0) = NaN
   \<and> snd ([(19725 :: int, NaN), (19724, FloatV 15), (19724, FloatV 16), (19726, NaN)] ! 0) = NaN"
proof -
  have c: "use_cache offline_config" by (simp add: offline_config_def)
  have g: "files vix_world (vix_cache_path offline_config) = Some (VixCsv gappy_vix)"
    by (simp add: loader_defs sample_defs)
  have run: "load_vix always_503 offline_config vix_world =
       (Inr \<lparr>vix_rows = [(19725, NaN), (19724, FloatV 15), (19724, FloatV 16), (19726, NaN)],
             vix_close_dtype = Float64\<rparr>, vix_world)"
    by (simp add: loader_defs sample_defs)
  have n: "snd (gappy_vix ! 0) = NaN" by (simp add: gappy_vix_def)
  from load_vix_hit_passes_rows_through [OF c g, THEN conjunct2, rule_format, OF run]
  have "snd (gappy_vix ! 0) = NaN \<longrightarrow>
      snd ([(19725 :: int, NaN), (19724, FloatV 15), (19724, FloatV 16), (19726, NaN)] ! 0) = NaN"
    by (simp add: gappy_vix_def)
  with c g run n show ?thesis by blast
qed

lemma load_ticker_miss:
  assumes "\<not> (use_cache config \<and> path_exists w (cache_path_of config ticker))"
  shows "load_ticker net ticker config w =
     (case fetch_ticker_from_tiingo net ticker (start_date config) (end_date config)
             (tiingo_api_key config) (tiingo_base_url config) w of
        (Inl e, w1) \<Rightarrow> (Inl e, w1)
      | (Inr df, w1) \<Rightarrow>
          (Inr df, to_csv (cache_path_of config ticker) (PriceCsv (rows df))
                     (os_makedirs (cache_dir config) w1)))"
  using assms by (auto simp: load_ticker_def Let_def)

lemma load_vix_miss:
  assumes "\<not> (use_cache config \<and> path_exists w (vix_cache_path config))"
  shows "load_vix net config w =
     (case fetch_vix net (start_date config) (end_date config) w of
        (Inl e, w1) \<Rightarrow> (Inl e, w1)
      | (Inr df, w1) \<Rightarrow>
          (Inr df, to_csv (vix_cache_path config) (VixCsv (vix_rows df))
                     (os_makedirs (cache_dir config) w1)))"
  using assms by (auto simp: load_vix_def Let_def)

lemma fetch_ticker_history:
  assumes "fetch_ticker_from_tiingo net ticker s e api_key base_url w = (Inr df, w1)"
  shows "fs_history w1 = fs_history w"
proof -
  from fetch_Inr [OF assms] obtain data w0 where
    n: "normalize ticker data w0 = (Inr df, w1)" and h: "fs_history w0 = fs_history w" by blast
  from normalize_world [OF n] h show ?thesis by simp
qed

lemma fetch_vix_history:
  "fetch_vix net s e w = (res, w1) \<Longrightarrow> fs_history w1 = fs_history w"
  by (auto simp: fetch_vix_def requests_get_def Let_def
      split: outcome.splits if_splits sum.splits)

lemma to_csv_written:
  "files (to_csv path content w) path = Some content"
  "fs_history (to_csv path content w) = fs_history w @ [(files w)(path \<mapsto> Truncated), files (to_csv path content w)]"
  by (simp_all add: to_csv_def Let_def)

text \<open>
  C3, as the code has it. A cache-miss load that returns has written the frame to the
  artifact of the series before it returns, with a plain write in place: the last state
  of the files is the one with the artifact complete, two states after the start (the
  file opened and still empty, then the file written). A next load of the same series
  with \<^verbatim>\<open>use_cache\<close> on is a cache hit: it returns the artifact type-enforced and leaves
  the world, its requests included, as it is.
\<close>

theorem cache_miss_writes_before_return:
  "(\<not> (use_cache config \<and> path_exists w (cache_path_of config ticker))
      \<and> load_ticker net ticker config w = (Inr df, w') \<longrightarrow>
      files w' (cache_path_of config ticker) = Some (PriceCsv (rows df))
    \<and> last (fs_history w') = files w'
    \<and> length (fs_history w') = length (fs_history w) + 2
    \<and> (use_cache config \<longrightarrow>
          load_ticker net' ticker config w' = (enforce_dtypes (rows df), w')))
 \<and> (\<not> (use_cache config \<and> path_exists w (vix_cache_path config))
      \<and> load_vix net config w = (Inr vdf, w'') \<longrightarrow>
      files w'' (vix_cache_path config) = Some (VixCsv (vix_rows vdf))
    \<and> last (fs_history w'') = files w''
    \<and> length (fs_history w'') = length (fs_history w) + 2
    \<and> (use_cache config \<longrightarrow> snd (load_vix net' config w'') = w''))"
proof (intro conjI impI)
  assume a: "\<not> (use_cache config \<and> path_exists w (cache_path_of config ticker))
      \<and> load_ticker net ticker config w = (Inr df, w')"
  let ?path = "cache_path_of config ticker"
  from a obtain w1 where
    f: "fetch_ticker_from_tiingo net ticker (start_date config) (end_date config)
          (tiingo_api_key config) (tiingo_base_url config) w = (Inr df, w1)"
    and w': "w' = to_csv ?path (PriceCsv (rows df)) (os_makedirs (cache_dir config) w1)"
    by (auto simp: load_ticker_miss split: prod.splits sum.splits)
  have h: "fs_history w1 = fs_history w" using f by (rule fetch_ticker_history)
  show written: "files w' ?path = Some (PriceCsv (rows df))"
    unfolding w' by (rule to_csv_written)
  show "last (fs_history w') = files w'" unfolding w' by (simp add: to_csv_written)
  show "length (fs_history w') = length (fs_history w) + 2"
    unfolding w' by (simp add: to_csv_written os_makedirs_def h)
  show "load_ticker net' ticker config w' = (enforce_dtypes (rows df), w')" if "use_cache config"
    using load_ticker_hit [OF that written, of net'] by simp
next
  assume a: "\<not> (use_cache config \<and> path_exists w (vix_cache_path config))
      \<and> load_vix net config w = (Inr vdf, w'')"
  let ?path = "vix_cache_path config"
  from a obtain w1 where
    f: "fetch_vix net (start_date config) (end_date config) w = (Inr vdf, w1)"
    and w': "w'' = to_csv ?path (VixCsv (vix_rows vdf)) (os_makedirs (cache_dir config) w1)"
    by (auto simp: load_vix_miss split: prod.splits sum.splits)
  have h: "fs_history w1 = fs_history w" using f by (rule fetch_vix_history)
  show written: "files w'' ?path = Some (VixCsv (vix_rows vdf))"
    unfolding w' by (rule to_csv_written)
  show "last (fs_history w'') = files w''" unfolding w' by (simp add: to_csv_written)
  show "length (fs_history w'') = length (fs_history w) + 2"
    unfolding w' by (simp add: to_csv_written os_makedirs_def h)
  show "snd (load_vix net' config w'') = w''" if "use_cache config"
    using load_vix_hit [OF that written, of net'] by simp
qed

theorem cache_miss_writes_before_return_witness:
  "\<not> (use_cache keyed_config \<and> path_exists empty_world (cache_path_of keyed_config ''SPY''))
   \<and> load_ticker (serving two_bars) ''SPY'' keyed_config empty_world =
       (Inr \<lparr>rows =
          [\<lparr>date = 19724, adjOpen = FloatV 100, adjClose = FloatV (201 / 2),
            adjVolume = IntV 1000000, others = []\<rparr>,
           \<lparr>date = 19725, adjOpen = FloatV 101, adjClose = FloatV (203 / 2),
            adjVolume = IntV 1100000, others = []\<rparr>],
          adjOpen_dtype = Float64, adjClose_dtype = Float64, adjVolume_dtype = Int64\<rparr>,
        snd (load_ticker (serving two_bars) ''SPY'' keyed_config empty_world))
   \<and> files (snd (load_ticker (serving two_bars) ''SPY'' keyed_config empty_world))
        ''data/cache/SPY.csv'' =
       Some (PriceCsv
          [\<lparr>date = 19724, adjOpen = FloatV 100, adjClose = FloatV (201 / 2),
            adjVolume = IntV 1000000, others = []\<rparr>,
           \<lparr>date = 19725, adjOpen = FloatV 101, adjClose = FloatV (203 / 2),
            adjVolume = IntV 1100000, others = []\<rparr>])
   \<and> length (fs_history (snd (load_ticker (serving two_bars) ''SPY'' keyed_config empty_world))) = 2
   \<and> requests (snd (load_ticker always_503 ''SPY'' keyed_config
        (snd (load_ticker (serving two_bars) ''SPY'' keyed_config empty_world)))) =
      requests (snd (load_ticker (serving two_bars) ''SPY'' keyed_config empty_world))"
proof -
  let ?df = "\<lparr>rows =
          [\<lparr>date = 19724, adjOpen = FloatV 100, adjClose = FloatV (201 / 2),
            adjVolume = IntV 1000000, others = []\<rparr>,
           \<lparr>date = 19725, adjOpen = FloatV 101, adjClose = FloatV (203 / 2),
            adjVolume = IntV 1100000, others = []\<rparr>],
          adjOpen_dtype = Float64, adjClose_dtype = Float64, adjVolume_dtype = Int64\<rparr>"
  let ?w' = "snd (load_ticker (serving two_bars) ''SPY'' keyed_config empty_world)"
  have miss: "\<not> (use_cache keyed_config \<and> path_exists empty_world (cache_path_of keyed_config ''SPY''))"
    by (simp add: loader_defs sample_defs)
  have "fst (load_ticker (serving two_bars) ''SPY'' keyed_config empty_world) = Inr ?df"
    by (simp add: loader_defs sample_defs)
  then have run: "load_ticker (serving two_bars) ''SPY'' keyed_config empty_world = (Inr ?df, ?w')"
    by (metis prod.collapse)
  have c: "use_cache keyed_config" by (simp add: sample_defs)
  have p: "cache_path_of keyed_config ''SPY'' = ''data/cache/SPY.csv''"
    by (simp add: loader_defs sample_defs)
  note t = cache_miss_writes_before_return [where config=keyed_config and w=empty_world
      and ticker="''SPY''" and net="serving two_bars" and df="?df" and w'="?w'"
      and net'=always_503, THEN conjunct1, rule_format, OF conjI [OF miss run]]
  from t c have "files ?w' (cache_path_of keyed_config ''SPY'') = Some (PriceCsv (rows ?df))"
    and "length (fs_history ?w') = length (fs_history empty_world) + 2"
    and "load_ticker always_503 ''SPY'' keyed_config ?w' = (enforce_dtypes (rows ?df), ?w')"
    by blast+
  with miss run p show ?thesis by (simp add: empty_world_def)
qed

text \<open>
  The write is not atomic: while the first load of SPY runs, the artifact is at its
  final path with nothing in it, a content that is neither the old one nor the new one,
  and a load in that state is a cache hit that fails on the empty file without sending
  a request.
\<close>

theorem direct_write_exposes_empty_artifact:
  "(fs_history (snd (load_ticker (serving two_bars) ''SPY'' keyed_config empty_world)) ! 0)
      ''data/cache/SPY.csv'' = Some Truncated
   \<and> files empty_world ''data/cache/SPY.csv'' = None
   \<and> files (snd (load_ticker (serving two_bars) ''SPY'' keyed_config empty_world))
        ''data/cache/SPY.csv'' \<noteq> Some Truncated
   \<and> \<not> never_half_written empty_world
        (snd (load_ticker (serving two_bars) ''SPY'' keyed_config empty_world))
        ''data/cache/SPY.csv''
   \<and> load_ticker always_503 ''SPY'' keyed_config
        (empty_world\<lparr>files := [''data/cache/SPY.csv'' \<mapsto> Truncated]\<rparr>) =
       (Inl EmptyDataError, empty_world\<lparr>files := [''data/cache/SPY.csv'' \<mapsto> Truncated]\<rparr>)"
  by (simp add: loader_defs sample_defs never_half_written_def)

lemma required_as_records:
  assumes "\<forall>r\<in>set rs. others r = []"
  shows "\<exists>i0. set_index_date (as_records rs) = Inr i0 \<and> required_columns i0 = Inr rs"
proof -
  let ?i0 = "map (\<lambda>x. (wall_day (date_member x), members x)) (as_records rs)"
  let ?row = "\<lambda>(d, m). \<lparr>date = d, adjOpen = cell_at m ''adjOpen'', adjClose = cell_at m ''adjClose'',
                       adjVolume = cell_at m ''adjVolume'', others = []\<rparr>"
  have i0: "set_index_date (as_records rs) = Inr ?i0"
    by (rule set_index_date_total) (simp add: as_records_def)
  have "required_columns ?i0 = Inr rs"
  proof (cases rs)
    case Nil
    then show ?thesis by (simp add: required_columns_def as_records_def has_column_def)
  next
    case (Cons r rs')
    have "\<forall>name\<in>set [''adjOpen'', ''adjClose'', ''adjVolume'']. has_column ?i0 name"
      by (simp add: Cons as_records_def has_column_def)
    then have "required_columns ?i0 = Inr (map ?row ?i0)" by (rule required_columns_total)
    moreover have "map ?row ?i0 = rs"
      using assms by (induction rs) (simp_all add: as_records_def cell_at_def)
    ultimately show ?thesis by simp
  qed
  with i0 show ?thesis by blast
qed

lemma sort_and_validate_canonical:
  assumes "sorted_wrt (<) (map date (rows fr))"
  shows "sort_and_validate ticker fr w = (fr, w)"
proof -
  from assms have s: "sorted (map date (rows fr))" and d: "distinct (map date (rows fr))"
    by (simp_all add: strict_sorted_iff)
  from s have "sort_index (tie_rank w) date (rows fr) = rows fr" by (rule sort_index_id)
  with d show ?thesis by (simp add: sort_and_validate_def has_duplicates_def)
qed

lemma enforce_dtypes_dates:
  assumes "enforce_dtypes rs = Inr fr"
  shows "map date (rows fr) = map date rs"
proof -
  have "list_all2 (\<lambda>r r'. date r' = date r) rs (rows fr)"
    by (rule list_all2_mono [OF enforce_dtypes_Inr [OF assms, THEN conjunct1]])
       (simp add: coerced_def)
  then show ?thesis by (rule all2_same_column)
qed

text \<open>
  C4, as the code has it. The cache read applies the type enforcement and nothing else
  of the normalisation: no restriction of the columns, no sort, no removal of
  duplicates. It gives what the normalisation of the fetch gives when the artifact has
  strictly ascending dates and the three value columns only, as the frame of every
  successful fetch has.
\<close>

theorem cache_read_enforces_dtypes_only:
  assumes "use_cache config" and "files w (cache_path_of config ticker) = Some (PriceCsv rs)"
  shows "load_ticker net ticker config w = (enforce_dtypes rs, w)
       \<and> (sorted_wrt (<) (map date rs) \<and> (\<forall>r\<in>set rs. others r = []) \<longrightarrow>
            load_ticker net ticker config w = normalize ticker (as_records rs) w)
       \<and> (fetch_ticker_from_tiingo net ticker s e api_key base_url w0 = (Inr df, w1) \<longrightarrow>
            sorted_wrt (<) (map date (rows df)) \<and> (\<forall>r\<in>set (rows df). others r = []))"
proof (intro conjI impI)
  show hit: "load_ticker net ticker config w = (enforce_dtypes rs, w)"
    using load_ticker_hit [OF assms, of net] by simp
  show "load_ticker net ticker config w = normalize ticker (as_records rs) w"
    if c: "sorted_wrt (<) (map date rs) \<and> (\<forall>r\<in>set rs. others r = [])"
  proof (cases "enforce_dtypes rs")
    case (Inl err)
    from c required_as_records [of rs] obtain i0 where
      "set_index_date (as_records rs) = Inr i0" and "required_columns i0 = Inr rs" by blast
    with Inl show ?thesis by (simp add: hit normalize_def)
  next
    case (Inr fr)
    from c required_as_records [of rs] obtain i0 where
      "set_index_date (as_records rs) = Inr i0" and "required_columns i0 = Inr rs" by blast
    moreover from enforce_dtypes_dates [OF Inr] c have "sorted_wrt (<) (map date (rows fr))"
      by simp
    from sort_and_validate_canonical [OF this] have "sort_and_validate ticker fr w = (fr, w)" .
    ultimately show ?thesis using Inr by (simp add: hit normalize_def)
  qed
next
  assume run: "fetch_ticker_from_tiingo net ticker s e api_key base_url w0 = (Inr df, w1)"
  from fetch_Inr [OF run] obtain data w2 where n: "normalize ticker data w2 = (Inr df, w1)"
    by blast
  from normalize_Inr(1) [OF n] show "sorted_wrt (<) (map date (rows df))" .
  from normalize_Inr(3) [OF n] show "\<forall>r\<in>set (rows df). others r = []"
    by (auto simp: kept_def)
qed

theorem cache_read_enforces_dtypes_only_witness:
  "use_cache offline_config
   \<and> files fixture_world (cache_path_of offline_config ''MGK'') = Some (PriceCsv mgk_fixture)
   \<and> sorted_wrt (<) (map date mgk_fixture)
   \<and> load_ticker always_503 ''MGK'' offline_config fixture_world =
       normalize ''MGK'' (as_records mgk_fixture) fixture_world
   \<and> normalize ''MGK'' (as_records mgk_fixture) fixture_world =
       (Inr \<lparr>rows = mgk_fixture, adjOpen_dtype = Float64, adjClose_dtype = Float64,
             adjVolume_dtype = Int64\<rparr>, fixture_world)"
proof -
  have c: "use_cache offline_config" by (simp add: offline_config_def)
  have f: "files fixture_world (cache_path_of offline_config ''MGK'') = Some (PriceCsv mgk_fixture)"
    by (simp add: loader_defs sample_defs)
  have s: "sorted_wrt (<) (map date mgk_fixture) \<and> (\<forall>r\<in>set mgk_fixture. others r = [])"
    by (simp add: mgk_fixture_def)
  from cache_read_enforces_dtypes_only [OF c f, where net=always_503,
      THEN conjunct2, THEN conjunct1, rule_format, OF s]
  have "load_ticker always_503 ''MGK'' offline_config fixture_world =
       normalize ''MGK'' (as_records mgk_fixture) fixture_world" .
  moreover have "load_ticker always_503 ''MGK'' offline_config fixture_world =
       (Inr \<lparr>rows = mgk_fixture, adjOpen_dtype = Float64, adjClose_dtype = Float64,
             adjVolume_dtype = Int64\<rparr>, fixture_world)"
    by (simp add: loader_defs sample_defs)
  ultimately show ?thesis using c f s by simp
qed

text \<open>
  The cache read is not the normalisation: an artifact whose lines are out of order,
  repeat a date and carry a fourth column comes back as it is, where the normalisation
  of the same lines sorts them, keeps the first line of the repeated date, drops the
  fourth column and logs a warning.
\<close>

theorem cache_read_keeps_artifact_order:
  "load_ticker always_503 ''SPY'' offline_config unsorted_world =
     (Inr \<lparr>rows = unsorted_rows, adjOpen_dtype = Float64, adjClose_dtype = Float64,
           adjVolume_dtype = Int64\<rparr>, unsorted_world)
   \<and> map date unsorted_rows = [19725, 19724, 19725]
   \<and> normalize ''SPY'' (as_records unsorted_rows) unsorted_world =
     (Inr \<lparr>rows =
        [\<lparr>date = 19724, adjOpen = FloatV 100, adjClose = FloatV (201 / 2),
          adjVolume = IntV 1000000, others = []\<rparr>,
         \<lparr>date = 19725, adjOpen = FloatV 101, adjClose = FloatV (203 / 2),
          adjVolume = IntV 1100000, others = []\<rparr>],
        adjOpen_dtype = Float64, adjClose_dtype = Float64, adjVolume_dtype = Int64\<rparr>,
      unsorted_world\<lparr>warnings := [''Duplicate dates removed for SPY'']\<rparr>)
   \<and> load_ticker always_503 ''SPY'' offline_config unsorted_world \<noteq>
       normalize ''SPY'' (as_records unsorted_rows) unsorted_world"
  by (simp add: loader_defs sample_defs as_records_def)

text \<open>
  C8 fails on the code. The provider sends 2024-01-02 twice, the second record without
  a volume. The fetch decides the volume dtype on both records (float64, a volume is
  missing) and then drops the second; the frame it returns and writes has one volume,
  1000000.0, as float64. The next load reads the artifact, finds no missing volume and
  returns the column as int64.
\<close>

theorem roundtrip_changes_volume_dtype:
  "load_ticker (serving duplicate_bars) ''SPY'' keyed_config empty_world =
     (Inr \<lparr>rows = [\<lparr>date = 19724, adjOpen = FloatV 100, adjClose = FloatV (201 / 2),
                    adjVolume = FloatV 1000000, others = []\<rparr>],
           adjOpen_dtype = Float64, adjClose_dtype = Float64, adjVolume_dtype = Float64\<rparr>,
      snd (load_ticker (serving duplicate_bars) ''SPY'' keyed_config empty_world))
   \<and> load_ticker (serving duplicate_bars) ''SPY'' keyed_config
       (snd (load_ticker (serving duplicate_bars) ''SPY'' keyed_config empty_world)) =
     (Inr \<lparr>rows = [\<lparr>date = 19724, adjOpen = FloatV 100, adjClose = FloatV (201 / 2),
                    adjVolume = IntV 1000000, others = []\<rparr>],
           adjOpen_dtype = Float64, adjClose_dtype = Float64, adjVolume_dtype = Int64\<rparr>,
      snd (load_ticker (serving duplicate_bars) ''SPY'' keyed_config empty_world))"
proof -
  have first: "load_ticker (serving duplicate_bars) ''SPY'' keyed_config empty_world =
     (Inr \<lparr>rows = [\<lparr>date = 19724, adjOpen = FloatV 100, adjClose = FloatV (201 / 2),
                    adjVolume = FloatV 1000000, others = []\<rparr>],
           adjOpen_dtype = Float64, adjClose_dtype = Float64, adjVolume_dtype = Float64\<rparr>,
      empty_world\<lparr>files := [''data/cache/SPY.csv'' \<mapsto>
          PriceCsv [\<lparr>date = 19724, adjOpen = FloatV 100, adjClose = FloatV (201 / 2),
                    adjVolume = FloatV 1000000, others = []\<rparr>]],
        dirs := {''data/cache''},
        requests := [tiingo_request ''SPY'' ''2007-06-01'' ''2025-12-31'' ''TEST_KEY''
                       ''https://api.tiingo.com/tiingo/daily''],
        warnings := [''Duplicate dates removed for SPY''],
        fs_history := [[''data/cache/SPY.csv'' \<mapsto> Truncated],
          [''data/cache/SPY.csv'' \<mapsto>
            PriceCsv [\<lparr>date = 19724, adjOpen = FloatV 100, adjClose = FloatV (201 / 2),
                      adjVolume = FloatV 1000000, others = []\<rparr>]]]\<rparr>)"
    by (simp add: loader_defs sample_defs)
  show ?thesis
    unfolding first by (simp add: loader_defs sample_defs)
qed

lemma astype_id: "\<forall>c\<in>set cs. conv c = Inr c \<Longrightarrow> astype conv cs = Inr cs"
  by (induction cs) auto

lemma assign_id: "\<forall>r\<in>set df. put (get r) r = r \<Longrightarrow> assign put (map get df) df = df"
  unfolding assign_def by (induction df) auto

lemma holds_float64_fixed: "holds Float64 c \<Longrightarrow> to_float64 c = Inr c"
  by (cases c) auto

lemma holds_int64_fixed: "holds Int64 c \<Longrightarrow> to_int64 c = Inr c"
  by (cases c) auto

lemma enforce_dtypes_fixed:
  assumes "\<forall>r\<in>set rs. holds Float64 (adjOpen r) \<and> holds Float64 (adjClose r)
             \<and> holds dt (adjVolume r)"
    and "dt = (if NaN \<in> set (map adjVolume rs) then Float64 else Int64)"
  shows "enforce_dtypes rs =
           Inr \<lparr>rows = rs, adjOpen_dtype = Float64, adjClose_dtype = Float64,
                adjVolume_dtype = dt\<rparr>"
proof -
  have o: "astype to_float64 (map adjOpen rs) = Inr (map adjOpen rs)"
    by (rule astype_id) (use assms(1) in \<open>auto simp: holds_float64_fixed\<close>)
  have o': "assign (\<lambda>c r. r\<lparr>adjOpen := c\<rparr>) (map adjOpen rs) rs = rs"
    by (rule assign_id) simp
  have c: "astype to_float64 (map adjClose rs) = Inr (map adjClose rs)"
    by (rule astype_id) (use assms(1) in \<open>auto simp: holds_float64_fixed\<close>)
  have c': "assign (\<lambda>c r. r\<lparr>adjClose := c\<rparr>) (map adjClose rs) rs = rs"
    by (rule assign_id) simp
  have v': "assign (\<lambda>c r. r\<lparr>adjVolume := c\<rparr>) (map adjVolume rs) rs = rs"
    by (rule assign_id) simp
  show ?thesis
  proof (cases "NaN \<in> set (map adjVolume rs)")
    case True
    with assms have "astype to_float64 (map adjVolume rs) = Inr (map adjVolume rs)"
      by (intro astype_id) (auto simp: holds_float64_fixed)
    with True assms(2) show ?thesis
      by (simp add: enforce_dtypes_def o o' c c' v' isna_any_def)
  next
    case False
    with assms have "astype to_int64 (map adjVolume rs) = Inr (map adjVolume rs)"
      by (intro astype_id) (auto simp: holds_int64_fixed)
    with False assms(2) show ?thesis
      by (simp add: enforce_dtypes_def o o' c c' v' isna_any_def)
  qed
qed

text \<open>
  Where the round trip does hold: when the volume column of the fetched frame is int64,
  or is float64 and still has a missing value, the next load returns the very frame.
\<close>

lemma roundtrip_when_volume_dtype_settled:
  assumes miss: "\<not> (use_cache config \<and> path_exists w (cache_path_of config ticker))"
    and run: "load_ticker net ticker config w = (Inr df, w')"
    and cache: "use_cache config"
    and vol: "adjVolume_dtype df = Float64 \<longrightarrow> NaN \<in> set (map adjVolume (rows df))"
  shows "load_ticker net' ticker config w' = (Inr df, w')"
proof -
  let ?path = "cache_path_of config ticker"
  from miss run obtain w1 where
    f: "fetch_ticker_from_tiingo net ticker (start_date config) (end_date config)
          (tiingo_api_key config) (tiingo_base_url config) w = (Inr df, w1)"
    and w': "w' = to_csv ?path (PriceCsv (rows df)) (os_makedirs (cache_dir config) w1)"
    by (auto simp: load_ticker_miss split: prod.splits sum.splits)
  have written: "files w' ?path = Some (PriceCsv (rows df))"
    unfolding w' by (rule to_csv_written)
  from fetch_Inr [OF f] obtain data w2 where n: "normalize ticker data w2 = (Inr df, w1)"
    by blast
  note dt = normalize_Inr(5) [OF n] and cells = normalize_Inr(6) [OF n]
  have "adjVolume_dtype df = (if NaN \<in> set (map adjVolume (rows df)) then Float64 else Int64)"
  proof (cases "NaN \<in> set (map adjVolume (rows df))")
    case True
    then obtain r where "r \<in> set (rows df)" and "adjVolume r = NaN" by auto
    with cells have "holds (adjVolume_dtype df) NaN" by metis
    with dt True show ?thesis by (auto split: if_splits)
  next
    case False
    with vol dt show ?thesis by (auto split: if_splits)
  qed
  from enforce_dtypes_fixed [OF cells this] dt
  have "enforce_dtypes (rows df) = Inr df" by simp
  with load_ticker_hit [OF cache written, of net'] show ?thesis by simp
qed

end
